theory Spec2Isabelle
  imports Main
begin

section \<open>Frame coordination core (frames.ts)\<close>

text \<open>
  The development embeds the coordination layer of \<^verbatim>\<open>src/frames.ts\<close>: the signal
  barrier, the frame task, the rerunnable task, the frame with its context slots and its
  network-idle timer, and the frame manager with its event handlers.

  JavaScript objects have identity and are mutated in place, so objects live in stores
  indexed by references (natural numbers) and every method takes the store and returns
  the updated one. A \<^verbatim>\<open>Set\<close> iterates in insertion order and holds no duplicates: it is
  a list, with \<open>set_add\<close> and \<open>set_delete\<close> keeping that discipline. A promise is its
  settlement state; settling a promise that is already settled does nothing, as in
  JavaScript. The progress log is an external sink and is not part of the state.
\<close>

subsection \<open>Errors, promises and sets\<close>

text \<open>
  An \<^verbatim>\<open>Error\<close> carries its message. A failed \<^verbatim>\<open>assert\<close> of the helper module and the
  \<^verbatim>\<open>TypeError\<close> of a property read on \<^verbatim>\<open>undefined\<close> are kept apart from it.
\<close>

datatype Error = Error (message: string) | AssertionError | TypeError

datatype 'a PromiseState = Pending | Fulfilled 'a | Rejected Error

text \<open>The \<^verbatim>\<open>resolve\<close> and \<^verbatim>\<open>reject\<close> callbacks of a promise: only a pending promise changes.\<close>

fun promise_resolve :: "'a \<Rightarrow> 'a PromiseState \<Rightarrow> 'a PromiseState" where
  "promise_resolve v Pending = Fulfilled v"
| "promise_resolve v p = p"

fun promise_reject :: "Error \<Rightarrow> 'a PromiseState \<Rightarrow> 'a PromiseState" where
  "promise_reject e Pending = Rejected e"
| "promise_reject e p = p"

definition set_add :: "'a \<Rightarrow> 'a list \<Rightarrow> 'a list" where
  "set_add x xs = (if x \<in> set xs then xs else xs @ [x])"

definition set_delete :: "'a \<Rightarrow> 'a list \<Rightarrow> 'a list" where
  "set_delete x xs = removeAll x xs"

text \<open>\<^verbatim>\<open>String.prototype.includes\<close>: the argument occurs as a contiguous run.\<close>

fun str_includes :: "string \<Rightarrow> string \<Rightarrow> bool" where
  "str_includes [] s = (s = [])"
| "str_includes (c # cs) s = (take (length s) (c # cs) = s \<or> str_includes cs s)"

subsection \<open>Signal barrier\<close>

type_synonym Progress = nat

record SignalBarrier =
  sb_progress :: "Progress option"
  protectCount :: int
  sb_promise :: "unit PromiseState"

text \<open>
  \<^verbatim>\<open>retain() { ++this._protectCount; }\<close> and
  \<^verbatim>\<open>release() { --this._protectCount; if (!this._protectCount) this._promiseCallback(); }\<close>.
  The constructor binds \<^verbatim>\<open>_promiseCallback\<close> to the resolver of \<^verbatim>\<open>_promise\<close>
  before anything can call \<^verbatim>\<open>release\<close>.
\<close>

definition retain :: "SignalBarrier \<Rightarrow> SignalBarrier" where
  "retain b = b\<lparr>protectCount := protectCount b + 1\<rparr>"

definition release :: "SignalBarrier \<Rightarrow> SignalBarrier" where
  "release b =
     (let b1 = b\<lparr>protectCount := protectCount b - 1\<rparr>
      in if protectCount b1 = 0 then b1\<lparr>sb_promise := promise_resolve () (sb_promise b1)\<rparr>
         else b1)"

definition new_SignalBarrier :: "Progress option \<Rightarrow> SignalBarrier" where
  "new_SignalBarrier progress =
     retain \<lparr>sb_progress = progress, protectCount = 0, sb_promise = Pending\<rparr>"

text \<open>\<^verbatim>\<open>waitFor\<close> releases and hands out \<^verbatim>\<open>_promise\<close>, the one promise of the barrier.\<close>

definition waitFor :: "SignalBarrier \<Rightarrow> SignalBarrier" where
  "waitFor b = release b"

text \<open>
  The calls that reach a barrier's counter. \<^verbatim>\<open>addFrameNavigation\<close> retains when it is
  called and releases when its race settles, so it contributes one \<open>Retain\<close> and,
  later, one \<open>Release\<close>.
\<close>

datatype BarrierCall = Retain | Release | WaitFor

fun barrier_call :: "SignalBarrier \<Rightarrow> BarrierCall \<Rightarrow> SignalBarrier" where
  "barrier_call b Retain = retain b"
| "barrier_call b Release = release b"
| "barrier_call b WaitFor = waitFor b"

definition barrier_run :: "BarrierCall list \<Rightarrow> SignalBarrier \<Rightarrow> SignalBarrier" where
  "barrier_run calls b = foldl barrier_call b calls"

subsection \<open>Requests, waiters and the frame task\<close>

type_synonym FrameRef = nat
type_synonym TaskRef = nat
type_synonym RerunRef = nat
type_synonym BarrierRef = nat
type_synonym PromiseRef = nat
type_synonym ExecutionContext = nat
type_synonym SmartHandle = nat

text \<open>
  A \<^verbatim>\<open>network.Request\<close>, as far as this file reads it: its frame, \<^verbatim>\<open>_isFavicon\<close>,
  \<^verbatim>\<open>_documentId\<close> (a string or \<^verbatim>\<open>undefined\<close>), whether \<^verbatim>\<open>redirectedFrom()\<close> is set, and
  the \<^verbatim>\<open>errorText\<close> of \<^verbatim>\<open>failure()\<close>. \<open>rq_ident\<close> stands for the identity of the object.
\<close>

record Request =
  rq_ident :: nat
  rq_frame :: FrameRef
  rq_isFavicon :: bool
  rq_documentId :: "string option"
  rq_redirectedFrom :: bool
  rq_errorText :: string

text \<open>JavaScript truthiness of an optional string: \<^verbatim>\<open>undefined\<close> and \<^verbatim>\<open>''\<close> are falsy.\<close>

fun truthy :: "string option \<Rightarrow> bool" where
  "truthy None = False"
| "truthy (Some s) = (s \<noteq> [])"

text \<open>
  Modelled from the spec: \<^verbatim>\<open>helper.urlMatches\<close> is not in the source file. An absent
  matcher matches every URL; any other matcher (literal, glob, predicate) is taken by the
  set of URLs it accepts.
\<close>

type_synonym URLMatch = "string \<Rightarrow> bool"

fun urlMatches :: "string \<Rightarrow> URLMatch option \<Rightarrow> bool" where
  "urlMatches u None = True"
| "urlMatches u (Some m) = m u"

record SameDocumentWaiter =
  same_url :: "URLMatch option"
  same_promise :: "unit PromiseState"

record SpecificDocumentWaiter =
  expectedDocumentId :: string
  specific_promise :: "unit PromiseState"

record NewDocumentWaiter =
  new_url :: "URLMatch option"
  new_promise :: "string PromiseState"

record LifecycleWaiter =
  waitUntil :: string
  lifecycle_promise :: "unit PromiseState"

record FrameTask =
  ft_frame :: FrameRef
  ft_requestMap :: "string \<rightharpoonup> Request"
  ft_progress :: "Progress option"
  ft_onSameDocument :: "SameDocumentWaiter option"
  ft_onSpecificDocument :: "SpecificDocumentWaiter option"
  ft_onNewDocument :: "NewDocumentWaiter option"
  ft_onLifecycle :: "LifecycleWaiter option"

text \<open>
  The methods of a frame task that touch only the task. \<open>u\<close> is \<^verbatim>\<open>this._frame.url()\<close> at
  the time of the call.
\<close>

definition FrameTask_onRequest :: "Request \<Rightarrow> FrameTask \<Rightarrow> FrameTask" where
  "FrameTask_onRequest request t =
     (if \<not> truthy (rq_documentId request) \<or> rq_redirectedFrom request then t
      else t\<lparr>ft_requestMap := (ft_requestMap t)(the (rq_documentId request) \<mapsto> request)\<rparr>)"

definition FrameTask_request :: "string \<Rightarrow> FrameTask \<Rightarrow> Request option" where
  "FrameTask_request documentId t = ft_requestMap t documentId"

definition FrameTask_onSameDocument :: "string \<Rightarrow> FrameTask \<Rightarrow> FrameTask" where
  "FrameTask_onSameDocument u t =
     (case ft_onSameDocument t of
        None \<Rightarrow> t
      | Some w \<Rightarrow>
          if urlMatches u (same_url w)
          then t\<lparr>ft_onSameDocument := Some (w\<lparr>same_promise := promise_resolve () (same_promise w)\<rparr>)\<rparr>
          else t)"

text \<open>The two halves of \<^verbatim>\<open>onNewDocument\<close>, in the order of the source.\<close>

definition notify_specific :: "string \<Rightarrow> Error option \<Rightarrow> SpecificDocumentWaiter \<Rightarrow> SpecificDocumentWaiter" where
  "notify_specific documentId error w =
     (if documentId = expectedDocumentId w then
        (case error of
           Some e \<Rightarrow> w\<lparr>specific_promise := promise_reject e (specific_promise w)\<rparr>
         | None \<Rightarrow> w\<lparr>specific_promise := promise_resolve () (specific_promise w)\<rparr>)
      else if error = None then
        w\<lparr>specific_promise :=
            promise_reject (Error ''Navigation interrupted by another one'') (specific_promise w)\<rparr>
      else w)"

definition notify_new :: "string \<Rightarrow> string \<Rightarrow> Error option \<Rightarrow> NewDocumentWaiter \<Rightarrow> NewDocumentWaiter" where
  "notify_new u documentId error w =
     (case error of
        Some e \<Rightarrow> w\<lparr>new_promise := promise_reject e (new_promise w)\<rparr>
      | None \<Rightarrow>
          if urlMatches u (new_url w)
          then w\<lparr>new_promise := promise_resolve documentId (new_promise w)\<rparr>
          else w)"

definition FrameTask_onNewDocument :: "string \<Rightarrow> string \<Rightarrow> Error option \<Rightarrow> FrameTask \<Rightarrow> FrameTask" where
  "FrameTask_onNewDocument u documentId error t =
     t\<lparr>ft_onSpecificDocument := map_option (notify_specific documentId error) (ft_onSpecificDocument t),
       ft_onNewDocument := map_option (notify_new u documentId error) (ft_onNewDocument t)\<rparr>"

text \<open>
  The \<^verbatim>\<open>waitFor...\<close> methods return a new promise whose executor asserts that no waiter
  of the kind is registered and registers one. An exception in a promise executor rejects
  the promise, so a second call returns a rejected promise and leaves the task as it was.
  The result is the task and the promise returned, given by its state; a pending one is
  the promise of the registered waiter.
\<close>

definition waitForSameDocumentNavigation :: "URLMatch option \<Rightarrow> FrameTask \<Rightarrow> FrameTask \<times> unit PromiseState" where
  "waitForSameDocumentNavigation u t =
     (case ft_onSameDocument t of
        Some w \<Rightarrow> (t, Rejected AssertionError)
      | None \<Rightarrow> (t\<lparr>ft_onSameDocument := Some \<lparr>same_url = u, same_promise = Pending\<rparr>\<rparr>, Pending))"

definition waitForSpecificDocument :: "string \<Rightarrow> FrameTask \<Rightarrow> FrameTask \<times> unit PromiseState" where
  "waitForSpecificDocument expected t =
     (case ft_onSpecificDocument t of
        Some w \<Rightarrow> (t, Rejected AssertionError)
      | None \<Rightarrow>
          (t\<lparr>ft_onSpecificDocument := Some \<lparr>expectedDocumentId = expected, specific_promise = Pending\<rparr>\<rparr>,
           Pending))"

definition waitForNewDocument :: "URLMatch option \<Rightarrow> FrameTask \<Rightarrow> FrameTask \<times> string PromiseState" where
  "waitForNewDocument u t =
     (case ft_onNewDocument t of
        Some w \<Rightarrow> (t, Rejected AssertionError)
      | None \<Rightarrow> (t\<lparr>ft_onNewDocument := Some \<lparr>new_url = u, new_promise = Pending\<rparr>\<rparr>, Pending))"

subsection \<open>Frames, rerunnable tasks and the state of the frame manager\<close>

datatype ContextType = main | utility

text \<open>
  A context slot. \<open>contextPromise\<close> is a reference: a caller keeps the promise it was
  given when the slot later gets a new one. \<open>contextResolveCallback\<close> is \<open>None\<close> for the
  initial \<^verbatim>\<open>() => {}\<close> and \<open>Some p\<close> for the resolver of promise \<open>p\<close>.
\<close>

record ContextData =
  contextPromise :: PromiseRef
  contextResolveCallback :: "PromiseRef option"
  cd_context :: "ExecutionContext option"
  rerunnableTasks :: "RerunRef list"

text \<open>
  The handle that \<^verbatim>\<open>setTimeout\<close> returns, with its delay in milliseconds. The handle stays
  in \<^verbatim>\<open>_networkIdleTimer\<close> after the timer has fired; \<open>timer_pending\<close> tells whether it
  still runs.
\<close>

datatype Timer = Timer (timer_delay: nat) (timer_pending: bool)

record Frame =
  fid :: string
  firedLifecycleEvents :: "string list"
  lastDocumentId :: string
  pendingDocumentId :: string
  frameTasks :: "TaskRef list"
  parentFrame :: "FrameRef option"
  url :: string
  detached :: bool
  contextData :: "ContextType \<Rightarrow> ContextData"
  childFrames :: "FrameRef list"
  name :: string
  inflightRequests :: "Request list"
  networkIdleTimer :: "Timer option"
  setContentCounter :: nat
  detachedPromise :: "unit PromiseState"

text \<open>
  A rerunnable task: its external promise, and the contexts in which \<^verbatim>\<open>rerun\<close> has called
  the user's task so far (the call itself is outside the file).
\<close>

record RerunnableTask =
  rt_promise :: "SmartHandle PromiseState"
  rt_progress :: Progress
  rt_reruns :: "ExecutionContext list"

datatype PageEvent =
    FrameAttached FrameRef
  | FrameDetached FrameRef
  | FrameNavigated FrameRef
  | Load
  | DOMContentLoaded
  | RequestStarted Request
  | RequestFinished Request
  | RequestFailed Request

record State =
  frames :: "string \<rightharpoonup> FrameRef"
  mainFrame :: "FrameRef option"
  signalBarriers :: "BarrierRef list"
  frameStore :: "FrameRef \<Rightarrow> Frame"
  taskStore :: "TaskRef \<Rightarrow> FrameTask"
  rerunStore :: "RerunRef \<Rightarrow> RerunnableTask"
  barrierStore :: "BarrierRef \<Rightarrow> SignalBarrier"
  promiseStore :: "PromiseRef \<Rightarrow> ExecutionContext PromiseState"
  emitted :: "PageEvent list"
  nextRef :: nat

text \<open>A call either returns or throws; what it changed before throwing stays changed.\<close>

datatype Outcome = Returns State | Throws Error State

definition update_frame :: "FrameRef \<Rightarrow> (Frame \<Rightarrow> Frame) \<Rightarrow> State \<Rightarrow> State" where
  "update_frame f g s = s\<lparr>frameStore := (frameStore s)(f := g (frameStore s f))\<rparr>"

definition update_task :: "TaskRef \<Rightarrow> (FrameTask \<Rightarrow> FrameTask) \<Rightarrow> State \<Rightarrow> State" where
  "update_task t g s = s\<lparr>taskStore := (taskStore s)(t := g (taskStore s t))\<rparr>"

definition update_rerun :: "RerunRef \<Rightarrow> (RerunnableTask \<Rightarrow> RerunnableTask) \<Rightarrow> State \<Rightarrow> State" where
  "update_rerun r g s = s\<lparr>rerunStore := (rerunStore s)(r := g (rerunStore s r))\<rparr>"

definition update_barrier :: "BarrierRef \<Rightarrow> (SignalBarrier \<Rightarrow> SignalBarrier) \<Rightarrow> State \<Rightarrow> State" where
  "update_barrier b g s = s\<lparr>barrierStore := (barrierStore s)(b := g (barrierStore s b))\<rparr>"

definition update_data :: "FrameRef \<Rightarrow> ContextType \<Rightarrow> (ContextData \<Rightarrow> ContextData) \<Rightarrow> State \<Rightarrow> State" where
  "update_data f w g s =
     update_frame f (\<lambda>fr. fr\<lparr>contextData := (contextData fr)(w := g (contextData fr w))\<rparr>) s"

definition emit :: "PageEvent \<Rightarrow> State \<Rightarrow> State" where
  "emit e s = s\<lparr>emitted := emitted s @ [e]\<rparr>"

text \<open>A loop whose body may fail to return stops at the first iteration that does.\<close>

fun fold_option :: "('a \<Rightarrow> 's \<Rightarrow> 's option) \<Rightarrow> 'a list \<Rightarrow> 's \<Rightarrow> 's option" where
  "fold_option body [] s = Some s"
| "fold_option body (x # xs) s =
     (case body x s of None \<Rightarrow> None | Some s' \<Rightarrow> fold_option body xs s')"

subsection \<open>Rerunnable task\<close>

text \<open>
  \<^verbatim>\<open>rerun\<close> is asynchronous. Its synchronous part calls the user's task in the context;
  \<open>RerunnableTask_rerun\<close> records that. The rest runs when the awaited evaluation
  settles: with the poll's result, or with a thrown error, given by its message.
\<close>

datatype RerunOutcome = PollResult SmartHandle | Threw string

definition RerunnableTask_rerun :: "ExecutionContext \<Rightarrow> RerunnableTask \<Rightarrow> RerunnableTask" where
  "RerunnableTask_rerun ctx t = t\<lparr>rt_reruns := rt_reruns t @ [ctx]\<rparr>"

definition RerunnableTask_rerun_settled :: "RerunOutcome \<Rightarrow> RerunnableTask \<Rightarrow> RerunnableTask" where
  "RerunnableTask_rerun_settled out t =
     (case out of
        PollResult result \<Rightarrow> t\<lparr>rt_promise := promise_resolve result (rt_promise t)\<rparr>
      | Threw msg \<Rightarrow>
          if str_includes msg ''Execution context was destroyed'' then t
          else if str_includes msg ''Cannot find context with specified id'' then t
          else t\<lparr>rt_promise := promise_reject (Error msg) (rt_promise t)\<rparr>)"

definition RerunnableTask_terminate :: "Error \<Rightarrow> RerunnableTask \<Rightarrow> RerunnableTask" where
  "RerunnableTask_terminate error t = t\<lparr>rt_promise := promise_reject error (rt_promise t)\<rparr>"

text \<open>The constructor registers the task in the slot's task set.\<close>

definition new_RerunnableTask :: "FrameRef \<Rightarrow> ContextType \<Rightarrow> Progress \<Rightarrow> State \<Rightarrow> RerunRef \<times> State" where
  "new_RerunnableTask f w progress s =
     (let r = nextRef s;
          s1 = s\<lparr>nextRef := Suc r,
                 rerunStore := (rerunStore s)(r := \<lparr>rt_promise = Pending, rt_progress = progress, rt_reruns = []\<rparr>)\<rparr>
      in (r, update_data f w (\<lambda>d. d\<lparr>rerunnableTasks := set_add r (rerunnableTasks d)\<rparr>) s1))"

subsection \<open>Frame: context slots\<close>

definition Frame_setContext :: "ContextType \<Rightarrow> ExecutionContext option \<Rightarrow> FrameRef \<Rightarrow> State \<Rightarrow> State" where
  "Frame_setContext w c f s =
     (case c of
        Some ctx \<Rightarrow>
          (let s1 = update_data f w (\<lambda>d. d\<lparr>cd_context := Some ctx\<rparr>) s;
               data = contextData (frameStore s1 f) w;
               s2 = (case contextResolveCallback data of
                       None \<Rightarrow> s1
                     | Some p \<Rightarrow> s1\<lparr>promiseStore := (promiseStore s1)(p := promise_resolve ctx (promiseStore s1 p))\<rparr>)
           in fold (\<lambda>r. update_rerun r (RerunnableTask_rerun ctx)) (rerunnableTasks data) s2)
      | None \<Rightarrow>
          (let p = nextRef s;
               s1 = s\<lparr>nextRef := Suc p, promiseStore := (promiseStore s)(p := Pending)\<rparr>
           in update_data f w
                (\<lambda>d. d\<lparr>cd_context := None, contextPromise := p, contextResolveCallback := Some p\<rparr>) s1))"

definition Frame_contextCreated :: "ContextType \<Rightarrow> ExecutionContext \<Rightarrow> FrameRef \<Rightarrow> State \<Rightarrow> State" where
  "Frame_contextCreated w ctx f s =
     (let s1 = (if cd_context (contextData (frameStore s f) w) \<noteq> None
                then Frame_setContext w None f s else s)
      in Frame_setContext w (Some ctx) f s1)"

definition Frame_contextDestroyed :: "ExecutionContext \<Rightarrow> FrameRef \<Rightarrow> State \<Rightarrow> State" where
  "Frame_contextDestroyed ctx f s =
     fold (\<lambda>w s'. if cd_context (contextData (frameStore s' f) w) = Some ctx
                   then Frame_setContext w None f s' else s')
          [main, utility] s"

text \<open>
  \<^verbatim>\<open>_context\<close> throws on a detached frame and returns the slot's promise otherwise.
  The message quotes the URL in double quotes, the character \<open>CHR 0x22\<close>.
\<close>

definition Frame_context :: "ContextType \<Rightarrow> FrameRef \<Rightarrow> State \<Rightarrow> Error + PromiseRef" where
  "Frame_context w f s =
     (if detached (frameStore s f)
      then Inl (Error (''Execution Context is not available in detached frame '' @ [CHR 0x22]
                       @ url (frameStore s f) @ [CHR 0x22] @ '' (are you trying to evaluate?)''))
      else Inr (contextPromise (contextData (frameStore s f) w)))"

definition Frame_scheduleRerunnableTask :: "Progress \<Rightarrow> ContextType \<Rightarrow> FrameRef \<Rightarrow> State \<Rightarrow> RerunRef \<times> State" where
  "Frame_scheduleRerunnableTask progress w f s =
     (case new_RerunnableTask f w progress s of
        (r, s1) \<Rightarrow>
          (case cd_context (contextData (frameStore s1 f) w) of
             Some ctx \<Rightarrow> (r, update_rerun r (RerunnableTask_rerun ctx) s1)
           | None \<Rightarrow> (r, s1)))"

text \<open>The constructor: two slots with a promise that never resolves, each replaced at once
  by \<^verbatim>\<open>_setContext(type, null)\<close>; the timer is \<^verbatim>\<open>undefined\<close>.\<close>

definition new_Frame :: "string \<Rightarrow> FrameRef option \<Rightarrow> State \<Rightarrow> FrameRef \<times> State" where
  "new_Frame ident parent s =
     (let f = nextRef s;
          p1 = Suc f;
          p2 = Suc p1;
          slot = (\<lambda>p. \<lparr>contextPromise = p, contextResolveCallback = None, cd_context = None,
                       rerunnableTasks = []\<rparr>);
          fr = \<lparr>fid = ident, firedLifecycleEvents = [], lastDocumentId = [], pendingDocumentId = [],
                frameTasks = [], parentFrame = parent, url = [], detached = False,
                contextData = (\<lambda>w. case w of main \<Rightarrow> slot p1 | utility \<Rightarrow> slot p2),
                childFrames = [], name = [], inflightRequests = [], networkIdleTimer = None,
                setContentCounter = 0, detachedPromise = Pending\<rparr>;
          s1 = s\<lparr>nextRef := Suc p2,
                 frameStore := (frameStore s)(f := fr),
                 promiseStore := (promiseStore s)(p1 := Pending, p2 := Pending)\<rparr>;
          s2 = Frame_setContext main None f s1;
          s3 = Frame_setContext utility None f s2;
          s4 = (case parent of
                  Some p \<Rightarrow> update_frame p (\<lambda>pf. pf\<lparr>childFrames := set_add f (childFrames pf)\<rparr>) s3
                | None \<Rightarrow> s3)
      in (f, s4))"

definition Frame_onDetached :: "FrameRef \<Rightarrow> State \<Rightarrow> State" where
  "Frame_onDetached f s =
     (let s1 = update_frame f (\<lambda>fr. fr\<lparr>detached := True,
                                         detachedPromise := promise_resolve () (detachedPromise fr)\<rparr>) s;
          terminate_all = (\<lambda>w s'. fold (\<lambda>r. update_rerun r
                              (RerunnableTask_terminate (Error ''waitForFunction failed: frame got detached.'')))
                             (rerunnableTasks (contextData (frameStore s' f) w)) s');
          s2 = fold terminate_all [main, utility] s1;
          s3 = (case parentFrame (frameStore s2 f) of
                  Some p \<Rightarrow> update_frame p (\<lambda>pf. pf\<lparr>childFrames := set_delete f (childFrames pf)\<rparr>) s2
                | None \<Rightarrow> s2)
      in update_frame f (\<lambda>fr. fr\<lparr>parentFrame := None\<rparr>) s3)"

subsection \<open>Frame: network-idle timer\<close>

definition Frame_startNetworkIdleTimer :: "FrameRef \<Rightarrow> State \<Rightarrow> Outcome" where
  "Frame_startNetworkIdleTimer f s =
     (if networkIdleTimer (frameStore s f) \<noteq> None then Throws AssertionError s
      else if ''networkidle'' \<in> set (firedLifecycleEvents (frameStore s f)) then Returns s
      else Returns (update_frame f (\<lambda>fr. fr\<lparr>networkIdleTimer := Some (Timer 500 True)\<rparr>) s))"

definition Frame_stopNetworkIdleTimer :: "FrameRef \<Rightarrow> State \<Rightarrow> State" where
  "Frame_stopNetworkIdleTimer f s = update_frame f (\<lambda>fr. fr\<lparr>networkIdleTimer := None\<rparr>) s"

subsection \<open>Frame task: registration and lifecycle\<close>

definition new_FrameTask :: "FrameRef \<Rightarrow> Progress option \<Rightarrow> State \<Rightarrow> TaskRef \<times> State" where
  "new_FrameTask f progress s =
     (let t = nextRef s;
          s1 = s\<lparr>nextRef := Suc t,
                 taskStore := (taskStore s)(t := \<lparr>ft_frame = f, ft_requestMap = Map.empty,
                    ft_progress = progress, ft_onSameDocument = None, ft_onSpecificDocument = None,
                    ft_onNewDocument = None, ft_onLifecycle = None\<rparr>)\<rparr>
      in (t, update_frame f (\<lambda>fr. fr\<lparr>frameTasks := set_add t (frameTasks fr)\<rparr>) s1))"

definition FrameTask_done :: "TaskRef \<Rightarrow> State \<Rightarrow> State" where
  "FrameTask_done t s =
     update_frame (ft_frame (taskStore s t)) (\<lambda>fr. fr\<lparr>frameTasks := set_delete t (frameTasks fr)\<rparr>) s"

text \<open>
  The loop of \<^verbatim>\<open>_checkLifecycleRecursively\<close> over the children: it returns \<^verbatim>\<open>false\<close> at
  the first child whose check fails.
\<close>

fun check_children :: "(FrameRef \<Rightarrow> bool option) \<Rightarrow> FrameRef list \<Rightarrow> bool option" where
  "check_children chk [] = Some True"
| "check_children chk (c # cs) =
     (case chk c of
        None \<Rightarrow> None
      | Some False \<Rightarrow> Some False
      | Some True \<Rightarrow> check_children chk cs)"

text \<open>
  \<^verbatim>\<open>_checkLifecycleRecursively\<close> follows the child references of the store, which nothing
  in the types keeps from forming a cycle. The first argument bounds the depth of the
  recursion; \<open>None\<close> means the bound was reached.
\<close>

primrec checkLifecycleRecursively :: "nat \<Rightarrow> State \<Rightarrow> string \<Rightarrow> FrameRef \<Rightarrow> bool option" where
  "checkLifecycleRecursively 0 s w = (\<lambda>f. None)"
| "checkLifecycleRecursively (Suc n) s w =
     (\<lambda>f. if w \<notin> set (firedLifecycleEvents (frameStore s f)) then Some False
          else check_children (checkLifecycleRecursively n s w) (childFrames (frameStore s f)))"

text \<open>
  Modelled from the spec: \<^verbatim>\<open>types.kLifecycleEvents\<close> is not in the source file; the spec
  lists the accepted lifecycle values.
\<close>

definition kLifecycleEvents :: "string set" where
  "kLifecycleEvents = {''domcontentloaded'', ''load'', ''networkidle''}"

text \<open>
  \<^verbatim>\<open>waitForLifecycle\<close> is not \<^verbatim>\<open>async\<close>: an unsupported value throws in the caller. The
  result is the error thrown, or the state and the promise returned (given by its state; a
  pending one is the promise of the registered waiter).
\<close>

definition waitForLifecycle :: "nat \<Rightarrow> string \<Rightarrow> TaskRef \<Rightarrow> State \<Rightarrow> (Error + State \<times> unit PromiseState) option" where
  "waitForLifecycle n waitUntil0 t s =
     (let w = (if waitUntil0 = ''networkidle0'' then ''networkidle'' else waitUntil0)
      in if w \<notin> kLifecycleEvents then Some (Inl (Error (''Unsupported waitUntil option '' @ w)))
         else (case checkLifecycleRecursively n s w (ft_frame (taskStore s t)) of
                 None \<Rightarrow> None
               | Some True \<Rightarrow> Some (Inr (s, Fulfilled ()))
               | Some False \<Rightarrow>
                   (case ft_onLifecycle (taskStore s t) of
                      Some old \<Rightarrow> Some (Inr (s, Rejected AssertionError))
                    | None \<Rightarrow>
                        Some (Inr (update_task t (\<lambda>ft. ft\<lparr>ft_onLifecycle :=
                                      Some \<lparr>waitUntil = w, lifecycle_promise = Pending\<rparr>\<rparr>) s,
                                   Pending)))))"

text \<open>\<^verbatim>\<open>onLifecycle\<close>: the check runs only when a lifecycle waiter is registered.\<close>

definition FrameTask_onLifecycle :: "nat \<Rightarrow> TaskRef \<Rightarrow> State \<Rightarrow> State option" where
  "FrameTask_onLifecycle n t s =
     (case ft_onLifecycle (taskStore s t) of
        None \<Rightarrow> Some s
      | Some w \<Rightarrow>
          (case checkLifecycleRecursively n s (waitUntil w) (ft_frame (taskStore s t)) of
             None \<Rightarrow> None
           | Some False \<Rightarrow> Some s
           | Some True \<Rightarrow>
               Some (update_task t (\<lambda>ft. ft\<lparr>ft_onLifecycle :=
                       Some (w\<lparr>lifecycle_promise := promise_resolve () (lifecycle_promise w)\<rparr>)\<rparr>) s)))"

subsection \<open>Signal barrier in the store\<close>

text \<open>
  \<^verbatim>\<open>addFrameNavigation\<close> up to its \<^verbatim>\<open>await\<close>: retain, create a frame task on the frame and
  register its new-document and same-document waiters. The part after the race has
  settled removes the task and releases.
\<close>

definition SignalBarrier_addFrameNavigation :: "FrameRef \<Rightarrow> BarrierRef \<Rightarrow> State \<Rightarrow> State" where
  "SignalBarrier_addFrameNavigation f b s =
     (let s1 = update_barrier b retain s
      in case new_FrameTask f (sb_progress (barrierStore s1 b)) s1 of
           (t, s2) \<Rightarrow>
             update_task t (\<lambda>ft. fst (waitForSameDocumentNavigation None (fst (waitForNewDocument None ft)))) s2)"

definition SignalBarrier_addFrameNavigation_settled :: "TaskRef \<Rightarrow> BarrierRef \<Rightarrow> State \<Rightarrow> State" where
  "SignalBarrier_addFrameNavigation_settled t b s = update_barrier b release (FrameTask_done t s)"

subsection \<open>Frame manager\<close>

definition frameWillPotentiallyRequestNavigation :: "State \<Rightarrow> State" where
  "frameWillPotentiallyRequestNavigation s = fold (\<lambda>b. update_barrier b retain) (signalBarriers s) s"

definition frameDidPotentiallyRequestNavigation :: "State \<Rightarrow> State" where
  "frameDidPotentiallyRequestNavigation s = fold (\<lambda>b. update_barrier b release) (signalBarriers s) s"

definition frameRequestedNavigation :: "string \<Rightarrow> string \<Rightarrow> State \<Rightarrow> State" where
  "frameRequestedNavigation frameId documentId s =
     (case frames s frameId of
        None \<Rightarrow> s
      | Some f \<Rightarrow>
          update_frame f (\<lambda>fr. fr\<lparr>pendingDocumentId := documentId\<rparr>)
            (fold (SignalBarrier_addFrameNavigation f) (signalBarriers s) s))"

definition frameUpdatedDocumentIdForNavigation :: "string \<Rightarrow> string \<Rightarrow> State \<Rightarrow> State" where
  "frameUpdatedDocumentIdForNavigation frameId documentId s =
     (case frames s frameId of
        None \<Rightarrow> s
      | Some f \<Rightarrow> update_frame f (\<lambda>fr. fr\<lparr>pendingDocumentId := documentId\<rparr>) s)"

definition frameCommittedSameDocumentNavigation :: "string \<Rightarrow> string \<Rightarrow> State \<Rightarrow> State" where
  "frameCommittedSameDocumentNavigation frameId u s =
     (case frames s frameId of
        None \<Rightarrow> s
      | Some f \<Rightarrow>
          (let s1 = update_frame f (\<lambda>fr. fr\<lparr>url := u\<rparr>) s;
               s2 = fold (\<lambda>t s'. update_task t (FrameTask_onSameDocument (url (frameStore s' f))) s')
                      (frameTasks (frameStore s1 f)) s1
           in emit (FrameNavigated f) s2))"

text \<open>
  \<^verbatim>\<open>_removeFramesRecursively\<close> and \<^verbatim>\<open>removeChildFramesRecursively\<close> call each other along
  the child references; the first argument bounds the depth as above. The children are
  the snapshot \<^verbatim>\<open>Array.from(this._childFrames)\<close> taken before the loop.
\<close>

primrec removeFramesRecursively :: "nat \<Rightarrow> FrameRef \<Rightarrow> State \<Rightarrow> State option" where
  "removeFramesRecursively 0 = (\<lambda>f s. None)"
| "removeFramesRecursively (Suc n) =
     (\<lambda>f s. case fold_option (removeFramesRecursively n) (childFrames (frameStore s f)) s of
              None \<Rightarrow> None
            | Some s1 \<Rightarrow>
                (let s2 = Frame_onDetached f s1;
                     s3 = s2\<lparr>frames := (frames s2)(fid (frameStore s2 f) := None)\<rparr>
                 in Some (emit (FrameDetached f) s3)))"

definition removeChildFramesRecursively :: "nat \<Rightarrow> FrameRef \<Rightarrow> State \<Rightarrow> State option" where
  "removeChildFramesRecursively n f s =
     fold_option (removeFramesRecursively n) (childFrames (frameStore s f)) s"

definition frameDetached :: "nat \<Rightarrow> string \<Rightarrow> State \<Rightarrow> State option" where
  "frameDetached n frameId s =
     (case frames s frameId of
        None \<Rightarrow> Some s
      | Some f \<Rightarrow> removeFramesRecursively n f s)"

text \<open>
  \<^verbatim>\<open>_notifyLifecycle\<close> walks from the frame up its parent references and notifies the
  tasks of each frame on the way. \<open>k\<close> bounds the walk, \<open>n\<close> the checks of the tasks.
\<close>

fun notifyLifecycle_from :: "nat \<Rightarrow> nat \<Rightarrow> FrameRef option \<Rightarrow> State \<Rightarrow> State option" where
  "notifyLifecycle_from n k None s = Some s"
| "notifyLifecycle_from n 0 (Some p) s = None"
| "notifyLifecycle_from n (Suc k) (Some p) s =
     (case fold_option (FrameTask_onLifecycle n) (frameTasks (frameStore s p)) s of
        None \<Rightarrow> None
      | Some s1 \<Rightarrow> notifyLifecycle_from n k (parentFrame (frameStore s1 p)) s1)"

definition notifyLifecycle :: "nat \<Rightarrow> FrameRef \<Rightarrow> State \<Rightarrow> State option" where
  "notifyLifecycle n f s = notifyLifecycle_from n n (Some f) s"

definition frameLifecycleEvent :: "nat \<Rightarrow> string \<Rightarrow> string \<Rightarrow> State \<Rightarrow> State option" where
  "frameLifecycleEvent n frameId event s =
     (case frames s frameId of
        None \<Rightarrow> Some s
      | Some f \<Rightarrow>
          if event \<in> set (firedLifecycleEvents (frameStore s f)) then Some s
          else
            (case notifyLifecycle n f
                    (update_frame f (\<lambda>fr. fr\<lparr>firedLifecycleEvents := set_add event (firedLifecycleEvents fr)\<rparr>) s) of
               None \<Rightarrow> None
             | Some s1 \<Rightarrow>
                 (let s2 = (if Some f = mainFrame s1 \<and> event = ''load'' then emit Load s1 else s1);
                      s3 = (if Some f = mainFrame s2 \<and> event = ''domcontentloaded''
                            then emit DOMContentLoaded s2 else s2)
                  in Some s3)))"

definition frameStoppedLoading :: "nat \<Rightarrow> string \<Rightarrow> State \<Rightarrow> State option" where
  "frameStoppedLoading n frameId s =
     (case frameLifecycleEvent n frameId ''domcontentloaded'' s of
        None \<Rightarrow> None
      | Some s1 \<Rightarrow> frameLifecycleEvent n frameId ''load'' s1)"

definition clearFrameLifecycle :: "FrameRef \<Rightarrow> State \<Rightarrow> Outcome" where
  "clearFrameLifecycle f s =
     (let s1 = update_frame f (\<lambda>fr. fr\<lparr>firedLifecycleEvents := []\<rparr>) s;
          s2 = update_frame f (\<lambda>fr. fr\<lparr>inflightRequests :=
                  filter (\<lambda>request. rq_documentId request = Some (lastDocumentId fr)) (inflightRequests fr)\<rparr>) s1;
          s3 = Frame_stopNetworkIdleTimer f s2
      in if length (inflightRequests (frameStore s3 f)) = 0 then Frame_startNetworkIdleTimer f s3
         else Returns s3)"

text \<open>
  \<^verbatim>\<open>frameCommittedNewDocumentNavigation\<close> reads \<^verbatim>\<open>this._frames.get(frameId)!\<close> and calls a
  method on it without a test: for an unknown id that is a \<^verbatim>\<open>TypeError\<close>.
  \<^verbatim>\<open>helper.debugAssert\<close> is not in the source file; \<open>debugMode\<close> says whether it asserts.
\<close>

definition frameCommittedNewDocumentNavigation ::
  "nat \<Rightarrow> bool \<Rightarrow> string \<Rightarrow> string \<Rightarrow> string \<Rightarrow> string \<Rightarrow> bool \<Rightarrow> State \<Rightarrow> Outcome option" where
  "frameCommittedNewDocumentNavigation n debugMode frameId u nm documentId initial s =
     (case frames s frameId of
        None \<Rightarrow> Some (Throws TypeError s)
      | Some f \<Rightarrow>
          (case removeChildFramesRecursively n f s of
             None \<Rightarrow> None
           | Some s1 \<Rightarrow>
               (let s2 = update_frame f (\<lambda>fr. fr\<lparr>url := u, name := nm\<rparr>) s1;
                    pending = pendingDocumentId (frameStore s2 f)
                in if debugMode \<and> \<not> (pending = [] \<or> pending = documentId) then Some (Throws AssertionError s2)
                   else
                     (let s3 = update_frame f (\<lambda>fr. fr\<lparr>lastDocumentId := documentId, pendingDocumentId := []\<rparr>) s2;
                          s4 = fold (\<lambda>t s'. update_task t
                                      (FrameTask_onNewDocument (url (frameStore s' f)) documentId None) s')
                                 (frameTasks (frameStore s3 f)) s3
                      in case clearFrameLifecycle f s4 of
                           Throws e s5 \<Rightarrow> Some (Throws e s5)
                         | Returns s5 \<Rightarrow>
                             Some (Returns (if \<not> initial then emit (FrameNavigated f) s5 else s5))))))"

definition inflightRequestFinished :: "Request \<Rightarrow> State \<Rightarrow> Outcome" where
  "inflightRequestFinished request s =
     (let f = rq_frame request
      in if rq_isFavicon request then Returns s
         else if request \<notin> set (inflightRequests (frameStore s f)) then Returns s
         else
           (let s1 = update_frame f (\<lambda>fr. fr\<lparr>inflightRequests := set_delete request (inflightRequests fr)\<rparr>) s
            in if length (inflightRequests (frameStore s1 f)) = 0 then Frame_startNetworkIdleTimer f s1
               else Returns s1))"

definition inflightRequestStarted :: "Request \<Rightarrow> State \<Rightarrow> State" where
  "inflightRequestStarted request s =
     (let f = rq_frame request
      in if rq_isFavicon request then s
         else
           (let s1 = update_frame f (\<lambda>fr. fr\<lparr>inflightRequests := set_add request (inflightRequests fr)\<rparr>) s
            in if length (inflightRequests (frameStore s1 f)) = 1 then Frame_stopNetworkIdleTimer f s1
               else s1))"

text \<open>
  \<^verbatim>\<open>requestStarted\<close>: the route of a favicon request and \<^verbatim>\<open>Page._requestStarted\<close> are
  outside the file; the latter is kept as the page event it emits.
\<close>

definition requestStarted :: "Request \<Rightarrow> State \<Rightarrow> State" where
  "requestStarted request s =
     (let s1 = inflightRequestStarted request s;
          s2 = fold (\<lambda>t. update_task t (FrameTask_onRequest request))
                 (frameTasks (frameStore s1 (rq_frame request))) s1
      in if rq_isFavicon request then s2 else emit (RequestStarted request) s2)"

definition requestFinished :: "Request \<Rightarrow> State \<Rightarrow> Outcome" where
  "requestFinished request s =
     (case inflightRequestFinished request s of
        Throws e s1 \<Rightarrow> Throws e s1
      | Returns s1 \<Rightarrow> Returns (if \<not> rq_isFavicon request then emit (RequestFinished request) s1 else s1))"

definition requestFailed :: "Request \<Rightarrow> bool \<Rightarrow> State \<Rightarrow> Outcome" where
  "requestFailed request canceled s =
     (case inflightRequestFinished request s of
        Throws e s1 \<Rightarrow> Throws e s1
      | Returns s1 \<Rightarrow>
          (let f = rq_frame request;
               s2 = (if truthy (rq_documentId request)
                        \<and> Some (pendingDocumentId (frameStore s1 f)) = rq_documentId request
                     then
                       (let s' = update_frame f (\<lambda>fr. fr\<lparr>pendingDocumentId := []\<rparr>) s1;
                            errorText = rq_errorText request
                                         @ (if canceled then ''; maybe frame was detached?'' else [])
                        in fold (\<lambda>t s''. update_task t
                                   (FrameTask_onNewDocument (url (frameStore s'' f))
                                      (the (rq_documentId request)) (Some (Error errorText))) s'')
                             (frameTasks (frameStore s' f)) s')
                     else s1)
           in Returns (if \<not> rq_isFavicon request then emit (RequestFailed request) s2 else s2)))"

definition provisionalLoadFailed :: "FrameRef \<Rightarrow> string \<Rightarrow> string \<Rightarrow> State \<Rightarrow> State" where
  "provisionalLoadFailed f documentId error s =
     fold (\<lambda>t s'. update_task t
             (FrameTask_onNewDocument (url (frameStore s' f)) documentId (Some (Error error))) s')
       (frameTasks (frameStore s f)) s"

text \<open>
  The callback that \<^verbatim>\<open>_startNetworkIdleTimer\<close> hands to \<^verbatim>\<open>setTimeout\<close>: when a pending
  timer of the frame fires, it calls \<^verbatim>\<open>frameLifecycleEvent(this._id, 'networkidle')\<close>, with
  the id the frame has by then. The handle stays in the field.
\<close>

definition networkIdleTimer_fired :: "nat \<Rightarrow> FrameRef \<Rightarrow> State \<Rightarrow> State option" where
  "networkIdleTimer_fired n f s =
     (case networkIdleTimer (frameStore s f) of
        Some (Timer d True) \<Rightarrow>
          frameLifecycleEvent n (fid (frameStore s f)) ''networkidle''
            (update_frame f (\<lambda>fr. fr\<lparr>networkIdleTimer := Some (Timer d False)\<rparr>) s)
      | _ \<Rightarrow> Some s)"

text \<open>
  \<^verbatim>\<open>frameAttached\<close>: a parent id that is falsy or not in the map takes the main-frame
  branch.
\<close>

definition frameAttached :: "string \<Rightarrow> string option \<Rightarrow> State \<Rightarrow> Outcome" where
  "frameAttached frameId parentFrameId s =
     (case (if truthy parentFrameId then frames s (the parentFrameId) else None) of
        None \<Rightarrow>
          (case mainFrame s of
             Some m \<Rightarrow>
               (let s1 = s\<lparr>frames := (frames s)(fid (frameStore s m) := None)\<rparr>;
                    s2 = update_frame m (\<lambda>fr. fr\<lparr>fid := frameId\<rparr>) s1
                in Returns (s2\<lparr>frames := (frames s2)(frameId \<mapsto> m)\<rparr>))
           | None \<Rightarrow>
               if frames s frameId \<noteq> None then Throws AssertionError s
               else (case new_Frame frameId None s of
                       (f, s1) \<Rightarrow> Returns (s1\<lparr>mainFrame := Some f, frames := (frames s1)(frameId \<mapsto> f)\<rparr>)))
      | Some p \<Rightarrow>
          if frames s frameId \<noteq> None then Throws AssertionError s
          else (case new_Frame frameId (Some p) s of
                  (f, s1) \<Rightarrow> Returns (emit (FrameAttached f) (s1\<lparr>frames := (frames s1)(frameId \<mapsto> f)\<rparr>))))"

text \<open>The frame manager as its constructor leaves it; nothing is allocated yet.\<close>

definition new_FrameManager :: State where
  "new_FrameManager =
     \<lparr>frames = Map.empty, mainFrame = None, signalBarriers = [],
      frameStore = (\<lambda>r. undefined), taskStore = (\<lambda>r. undefined), rerunStore = (\<lambda>r. undefined),
      barrierStore = (\<lambda>r. undefined), promiseStore = (\<lambda>r. undefined),
      emitted = [], nextRef = 0\<rparr>"

text \<open>
  \<^verbatim>\<open>waitForSignalsCreatedBy\<close> is asynchronous; these are its steps on the barrier: create
  it and add it to the active set, call \<^verbatim>\<open>waitFor\<close> after the action, remove it from the
  set once the latch has resolved.
\<close>

definition waitForSignalsCreatedBy_begin :: "Progress option \<Rightarrow> State \<Rightarrow> BarrierRef \<times> State" where
  "waitForSignalsCreatedBy_begin progress s =
     (let b = nextRef s
      in (b, s\<lparr>nextRef := Suc b,
               barrierStore := (barrierStore s)(b := new_SignalBarrier progress),
               signalBarriers := set_add b (signalBarriers s)\<rparr>))"

definition waitForSignalsCreatedBy_waitFor :: "BarrierRef \<Rightarrow> State \<Rightarrow> State" where
  "waitForSignalsCreatedBy_waitFor b s = update_barrier b waitFor s"

definition waitForSignalsCreatedBy_end :: "BarrierRef \<Rightarrow> State \<Rightarrow> State" where
  "waitForSignalsCreatedBy_end b s = s\<lparr>signalBarriers := set_delete b (signalBarriers s)\<rparr>"

section \<open>Notions used in the properties\<close>

subsection \<open>Signal barrier\<close>

text \<open>While the latch is pending the count is positive; the latch is never rejected.\<close>

definition barrier_inv :: "SignalBarrier \<Rightarrow> bool" where
  "barrier_inv b = (sb_promise b = Fulfilled () \<or> (sb_promise b = Pending \<and> 0 < protectCount b))"

subsection \<open>New-document notifications\<close>

text \<open>
  A new-document notification as a task receives it: the frame's URL at that time, the
  document id, and the error if the navigation failed.
\<close>

type_synonym NewDocumentNotice = "string \<times> string \<times> Error option"

definition deliver :: "FrameTask \<Rightarrow> NewDocumentNotice \<Rightarrow> FrameTask" where
  "deliver t n = (case n of (u, documentId, error) \<Rightarrow> FrameTask_onNewDocument u documentId error t)"

definition deliver_all :: "NewDocumentNotice list \<Rightarrow> FrameTask \<Rightarrow> FrameTask" where
  "deliver_all ns t = foldl deliver t ns"

definition specific_state :: "FrameTask \<Rightarrow> unit PromiseState option" where
  "specific_state t = map_option specific_promise (ft_onSpecificDocument t)"

text \<open>
  What a sequence of notifications makes of a pending wait for document \<open>expected\<close>: the
  first notice that either carries the expected id or reports a commit decides; a failure
  reported for another id is passed over.
\<close>

fun specific_outcome :: "string \<Rightarrow> NewDocumentNotice list \<Rightarrow> unit PromiseState" where
  "specific_outcome expected [] = Pending"
| "specific_outcome expected ((u, documentId, error) # ns) =
     (if documentId = expected then (case error of None \<Rightarrow> Fulfilled () | Some e \<Rightarrow> Rejected e)
      else if error = None then Rejected (Error ''Navigation interrupted by another one'')
      else specific_outcome expected ns)"

text \<open>A task as its constructor leaves it, on frame \<open>f\<close>.\<close>

definition fresh_task :: "FrameRef \<Rightarrow> FrameTask" where
  "fresh_task f = \<lparr>ft_frame = f, ft_requestMap = Map.empty, ft_progress = None,
     ft_onSameDocument = None, ft_onSpecificDocument = None, ft_onNewDocument = None,
     ft_onLifecycle = None\<rparr>"


subsection \<open>The frame tree in the store\<close>

text \<open>
  \<open>height_le n s f\<close>: following child references from \<open>f\<close> ends within \<open>n\<close> levels.
  \<open>chain_le k s p\<close>: following parent references from \<open>p\<close> ends within \<open>k\<close> frames.
  Under these bounds the depth-bounded functions above return.
\<close>

primrec height_le :: "nat \<Rightarrow> State \<Rightarrow> FrameRef \<Rightarrow> bool" where
  "height_le 0 s f = False"
| "height_le (Suc n) s f = list_all (height_le n s) (childFrames (frameStore s f))"

fun chain_le :: "nat \<Rightarrow> State \<Rightarrow> FrameRef option \<Rightarrow> bool" where
  "chain_le k s None = True"
| "chain_le 0 s (Some p) = False"
| "chain_le (Suc k) s (Some p) = chain_le k s (parentFrame (frameStore s p))"

text \<open>The frames of the subtree rooted at a frame: the frame and, recursively, its children.\<close>

inductive_set subtree :: "State \<Rightarrow> FrameRef \<Rightarrow> FrameRef set" for s :: State and f :: FrameRef where
  root: "f \<in> subtree s f"
| child: "g \<in> subtree s f \<Longrightarrow> c \<in> set (childFrames (frameStore s g)) \<Longrightarrow> c \<in> subtree s f"

text \<open>A step that only removes children: no frame gains a child.\<close>

definition shrinks :: "State \<Rightarrow> State \<Rightarrow> bool" where
  "shrinks s s' = (\<forall>g. set (childFrames (frameStore s' g)) \<subseteq> set (childFrames (frameStore s g)))"

definition detached_error :: Error where
  "detached_error = Error ''waitForFunction failed: frame got detached.''"

text \<open>
  What detaching frames does to the rerunnable tasks: the context slots keep their task
  sets, and a task's promise is as before or rejected with the detach error.
\<close>

definition detach_step :: "State \<Rightarrow> State \<Rightarrow> bool" where
  "detach_step s s' =
     ((\<forall>g. contextData (frameStore s' g) = contextData (frameStore s g))
      \<and> (\<forall>r. rt_promise (rerunStore s' r) = rt_promise (rerunStore s r)
             \<or> rt_promise (rerunStore s' r) = promise_reject detached_error (rt_promise (rerunStore s r))))"


text \<open>The loop of \<^verbatim>\<open>_onDetached\<close> over the two slots and their tasks, named.\<close>

definition terminate_all :: "FrameRef \<Rightarrow> State \<Rightarrow> State" where
  "terminate_all f s = fold (\<lambda>w s'. fold (\<lambda>r. update_rerun r
                              (RerunnableTask_terminate (Error ''waitForFunction failed: frame got detached.'')))
                             (rerunnableTasks (contextData (frameStore s' f) w)) s') [main, utility] s"

text \<open>The state an outcome leaves, whether the call returned or threw.\<close>

definition state_of :: "Outcome \<Rightarrow> State" where
  "state_of out = (case out of Returns s \<Rightarrow> s | Throws e s \<Rightarrow> s)"

text \<open>
  Example pages: a main frame \<open>F\<close> attached to a new frame manager; the same with a
  child frame \<open>C\<close>.
\<close>

definition page_main :: State where
  "page_main = state_of (frameAttached ''F'' None new_FrameManager)"

definition page_child :: State where
  "page_child = state_of (frameAttached ''C'' (Some ''F'') page_main)"

text \<open>The example page with a rerunnable task scheduled in the main world, no context yet.\<close>

definition page_waiting :: State where
  "page_waiting = snd (Frame_scheduleRerunnableTask 0 main 0 page_main)"

text \<open>The example page after the main world's context 7 has been created.\<close>

definition page_context :: State where
  "page_context = Frame_contextCreated main 7 0 page_main"

text \<open>
  A step that settles no context promise, keeps every frame's URL and slots, and leaves
  detached frames detached.
\<close>

definition keeps_promises :: "State \<Rightarrow> State \<Rightarrow> bool" where
  "keeps_promises s s' =
     (promiseStore s' = promiseStore s
      \<and> (\<forall>g. url (frameStore s' g) = url (frameStore s g)
             \<and> contextData (frameStore s' g) = contextData (frameStore s g)
             \<and> (detached (frameStore s g) \<longrightarrow> detached (frameStore s' g))))"

text \<open>The error of \<^verbatim>\<open>_context\<close> on a detached frame whose URL is \<open>u\<close>.\<close>

definition detached_context_error :: "string \<Rightarrow> Error" where
  "detached_context_error u = Error (''Execution Context is not available in detached frame '' @ [CHR 0x22]
                       @ u @ [CHR 0x22] @ '' (are you trying to evaluate?)'')"

text \<open>The spec's predicate: the event has fired on every frame of the subtree.\<close>

definition fired_in_subtree :: "State \<Rightarrow> string \<Rightarrow> FrameRef \<Rightarrow> bool" where
  "fired_in_subtree s w f = (\<forall>g\<in>subtree s f. w \<in> set (firedLifecycleEvents (frameStore s g)))"

text \<open>The frames reached from a frame along parent references, the frame included.\<close>

inductive_set ancestors :: "State \<Rightarrow> FrameRef \<Rightarrow> FrameRef set" for s :: State and g :: FrameRef where
  self: "g \<in> ancestors s g"
| parent: "a \<in> ancestors s g \<Longrightarrow> parentFrame (frameStore s a) = Some p \<Longrightarrow> p \<in> ancestors s g"

text \<open>
  What notifying tasks of a lifecycle event does: frames, frame map and page events stay;
  a task keeps its frame; its lifecycle waiter is as before, or the event had fired in the
  subtree of its frame and the waiter's promise is now fulfilled.
\<close>

definition notified :: "State \<Rightarrow> State \<Rightarrow> bool" where
  "notified s s' =
     (frameStore s' = frameStore s \<and> frames s' = frames s \<and> mainFrame s' = mainFrame s
      \<and> emitted s' = emitted s
      \<and> (\<forall>t. ft_frame (taskStore s' t) = ft_frame (taskStore s t)
           \<and> (ft_onLifecycle (taskStore s' t) = ft_onLifecycle (taskStore s t)
              \<or> (\<exists>w. ft_onLifecycle (taskStore s t) = Some w
                    \<and> fired_in_subtree s (waitUntil w) (ft_frame (taskStore s t))
                    \<and> ft_onLifecycle (taskStore s' t) = Some (w\<lparr>lifecycle_promise := Fulfilled ()\<rparr>)))))"

text \<open>A task has been served: if its waiter's predicate holds, its promise is settled.\<close>

definition settled_ok :: "State \<Rightarrow> TaskRef \<Rightarrow> bool" where
  "settled_ok s t =
     (case ft_onLifecycle (taskStore s t) of
        None \<Rightarrow> True
      | Some w \<Rightarrow> fired_in_subtree s (waitUntil w) (ft_frame (taskStore s t)) \<longrightarrow> lifecycle_promise w \<noteq> Pending)"

text \<open>
  Example pages for the lifecycle: the page with the child frame after \<open>load\<close> has fired on
  the main frame; the same with a frame task on the main frame; the same after the task
  has called \<open>waitForLifecycle('load')\<close>.
\<close>

definition or_else :: "State option \<Rightarrow> State \<Rightarrow> State" where
  "or_else r s = (case r of Some s' \<Rightarrow> s' | None \<Rightarrow> s)"

definition page_loaded :: State where
  "page_loaded = or_else (frameLifecycleEvent (Suc (Suc 0)) ''F'' ''load'' page_child) page_child"

definition page_task :: State where
  "page_task = snd (new_FrameTask 0 None page_loaded)"

definition page_wait :: State where
  "page_wait = (case waitForLifecycle (Suc (Suc 0)) ''load'' 10 page_task of
                  Some (Inr (s, p)) \<Rightarrow> s | _ \<Rightarrow> page_task)"

subsection \<open>The network-idle timer and the events of a page\<close>

text \<open>The timer of a frame runs: a handle is in the field and it has not fired yet.\<close>

definition timer_running :: "Frame \<Rightarrow> bool" where
  "timer_running fr = (case networkIdleTimer fr of None \<Rightarrow> False | Some t \<Rightarrow> timer_pending t)"

text \<open>
  The timer runs exactly if no request is in flight and \<open>networkidle\<close> has not fired; and
  while requests are in flight the field holds no handle (which is what the assertion of
  \<^verbatim>\<open>_startNetworkIdleTimer\<close> needs).
\<close>

definition timer_inv :: "Frame \<Rightarrow> bool" where
  "timer_inv fr =
     ((timer_running fr = (inflightRequests fr = [] \<and> ''networkidle'' \<notin> set (firedLifecycleEvents fr)))
      \<and> (inflightRequests fr = [] \<or> networkIdleTimer fr = None))"

text \<open>The frames the manager knows: those in the frame map, and the main frame.\<close>

definition known :: "State \<Rightarrow> FrameRef \<Rightarrow> bool" where
  "known s f = ((\<exists>ident. frames s ident = Some f) \<or> mainFrame s = Some f)"

definition page_inv :: "State \<Rightarrow> bool" where
  "page_inv s =
     ((\<forall>ident f. frames s ident = Some f \<longrightarrow> fid (frameStore s f) = ident)
      \<and> (\<forall>f. known s f \<longrightarrow> f < nextRef s \<and> timer_inv (frameStore s f)))"

text \<open>
  The events of a page, as the frame manager receives them. A frame is attached together
  with the initial commit of its document. \<open>TimerFired f\<close> is the firing of the network-idle
  timer of a frame that is in the frame map under its id; \<open>LifecycleEvent\<close> carries the
  events the browser reports, not \<open>networkidle\<close>. \<open>LifecycleCleared f\<close> is the call of
  \<^verbatim>\<open>clearFrameLifecycle\<close> by \<^verbatim>\<open>setContent\<close>. \<open>None\<close> means the event is not one of these, or
  the depth bound was reached. A handler that throws leaves the state it had reached.
\<close>

datatype Event =
    AttachedAndCommitted string "string option" string string string
  | CommittedNewDocument string string string string bool
  | CommittedSameDocument string string
  | RequestedNavigation string string
  | UpdatedDocumentId string string
  | Detached string
  | LifecycleEvent string string
  | StoppedLoading string
  | ReqStarted Request
  | ReqFinished Request
  | ReqFailed Request bool
  | ProvisionalLoadFailed FrameRef string string
  | LifecycleCleared FrameRef
  | TimerFired FrameRef

fun step :: "nat \<Rightarrow> bool \<Rightarrow> Event \<Rightarrow> State \<Rightarrow> State option" where
  "step n dbg (AttachedAndCommitted frameId parentId u nm d) s =
     (case frameAttached frameId parentId s of
        Throws e s1 \<Rightarrow> Some s1
      | Returns s1 \<Rightarrow> map_option state_of (frameCommittedNewDocumentNavigation n dbg frameId u nm d True s1))"
| "step n dbg (CommittedNewDocument frameId u nm d initial) s =
     map_option state_of (frameCommittedNewDocumentNavigation n dbg frameId u nm d initial s)"
| "step n dbg (CommittedSameDocument frameId u) s = Some (frameCommittedSameDocumentNavigation frameId u s)"
| "step n dbg (RequestedNavigation frameId d) s = Some (frameRequestedNavigation frameId d s)"
| "step n dbg (UpdatedDocumentId frameId d) s = Some (frameUpdatedDocumentIdForNavigation frameId d s)"
| "step n dbg (Detached frameId) s = frameDetached n frameId s"
| "step n dbg (LifecycleEvent frameId event) s =
     (if event = ''networkidle'' then None else frameLifecycleEvent n frameId event s)"
| "step n dbg (StoppedLoading frameId) s = frameStoppedLoading n frameId s"
| "step n dbg (ReqStarted request) s = Some (requestStarted request s)"
| "step n dbg (ReqFinished request) s = Some (state_of (requestFinished request s))"
| "step n dbg (ReqFailed request canceled) s = Some (state_of (requestFailed request canceled s))"
| "step n dbg (ProvisionalLoadFailed f d error) s = Some (provisionalLoadFailed f d error s)"
| "step n dbg (LifecycleCleared f) s = Some (state_of (clearFrameLifecycle f s))"
| "step n dbg (TimerFired f) s =
     (if frames s (fid (frameStore s f)) = Some f then networkIdleTimer_fired n f s else None)"

definition run :: "nat \<Rightarrow> bool \<Rightarrow> Event list \<Rightarrow> State \<Rightarrow> State option" where
  "run n dbg events s = fold_option (step n dbg) events s"

text \<open>
  A step that leaves the fields the timer depends on: no frame changes its id, its requests
  in flight, its fired events or its timer; the frame map only loses entries; the main
  frame stays; nothing is deallocated.
\<close>

definition timer_fields :: "Frame \<Rightarrow> string \<times> Request list \<times> string list \<times> Timer option" where
  "timer_fields fr = (fid fr, inflightRequests fr, firedLifecycleEvents fr, networkIdleTimer fr)"

definition quiet :: "State \<Rightarrow> State \<Rightarrow> bool" where
  "quiet s s' =
     ((\<forall>ident. frames s' ident = None \<or> frames s' ident = frames s ident)
      \<and> mainFrame s' = mainFrame s \<and> nextRef s \<le> nextRef s'
      \<and> (\<forall>g. timer_fields (frameStore s' g) = timer_fields (frameStore s g)))"


text \<open>The page with the waiting task after the child frame, which has not loaded, is detached.\<close>

definition page_wait_detached :: State where
  "page_wait_detached = or_else (frameDetached (Suc (Suc 0)) ''C'' page_wait) page_wait"

text \<open>
  The invariant with the timer condition waived for the frames of \<open>X\<close>: between the steps of
  a handler the frame it works on may break the condition.
\<close>

definition page_inv_except :: "FrameRef set \<Rightarrow> State \<Rightarrow> bool" where
  "page_inv_except X s =
     ((\<forall>ident f. frames s ident = Some f \<longrightarrow> fid (frameStore s f) = ident)
      \<and> (\<forall>f. known s f \<longrightarrow> f < nextRef s \<and> (f \<notin> X \<longrightarrow> timer_inv (frameStore s f))))"

text \<open>
  A step that works on one frame: the frame map, the main frame and the timer fields of
  every other frame stay, and the frame keeps its id.
\<close>

definition touches :: "FrameRef \<Rightarrow> State \<Rightarrow> State \<Rightarrow> bool" where
  "touches f s s' =
     (frames s' = frames s \<and> mainFrame s' = mainFrame s \<and> nextRef s \<le> nextRef s'
      \<and> (\<forall>g. g \<noteq> f \<longrightarrow> timer_fields (frameStore s' g) = timer_fields (frameStore s g))
      \<and> fid (frameStore s' f) = fid (frameStore s f))"

text \<open>
  The page of the main frame after its first commit; the same page after its timer has
  fired; that page after a second commit; and the committed page after the main frame is
  detached.
\<close>

definition page_committed :: State where
  "page_committed = or_else (map_option state_of
       (frameCommittedNewDocumentNavigation (Suc 0) False ''F'' ''https://a/'' [] ''D1'' True page_main))
     page_main"

definition page_idle :: State where
  "page_idle = or_else (networkIdleTimer_fired (Suc 0) 0 page_committed) page_committed"

definition page_recommitted :: State where
  "page_recommitted = or_else (map_option state_of
       (frameCommittedNewDocumentNavigation (Suc 0) False ''F'' ''https://b/'' [] ''D2'' False page_idle))
     page_idle"

definition page_committed_detached :: State where
  "page_committed_detached = or_else (frameDetached (Suc 0) ''F'' page_committed) page_committed"

text \<open>A request of the committed document on the main frame.\<close>

definition page_request :: Request where
  "page_request = \<lparr>rq_ident = 1, rq_frame = 0, rq_isFavicon = False, rq_documentId = Some ''D1'',
                    rq_redirectedFrom = False, rq_errorText = []\<rparr>"

section \<open>Properties\<close>

subsection \<open>Signal barrier (C7)\<close>

lemma barrier_run_snoc: "barrier_run (calls @ [c]) b = barrier_call (barrier_run calls b) c"
  by (simp add: barrier_run_def)

lemma barrier_inv_new: "barrier_inv (new_SignalBarrier p)"
  by (simp add: barrier_inv_def new_SignalBarrier_def retain_def)

lemma barrier_inv_call: "barrier_inv b \<Longrightarrow> barrier_inv (barrier_call b c)"
  by (cases c) (auto simp: barrier_inv_def retain_def release_def waitFor_def Let_def)

lemma barrier_inv_run: "barrier_inv b \<Longrightarrow> barrier_inv (barrier_run calls b)"
  by (induction calls rule: rev_induct) (simp_all add: barrier_run_def barrier_inv_call)

lemma barrier_call_fulfilled:
  "sb_promise b = Fulfilled () \<Longrightarrow> sb_promise (barrier_call b c) = Fulfilled ()"
  by (cases c) (auto simp: retain_def release_def waitFor_def Let_def)

text \<open>
  From a barrier whose latch is pending, the latch is resolved after a sequence of calls
  exactly if the count was zero after some non-empty prefix of it.
\<close>

lemma barrier_latch:
  "barrier_inv b \<Longrightarrow> sb_promise b = Pending \<Longrightarrow>
   (sb_promise (barrier_run calls b) = Fulfilled ()) =
   (\<exists>k. 0 < k \<and> k \<le> length calls \<and> protectCount (barrier_run (take k calls) b) = 0)"
proof (induction calls rule: rev_induct)
  case Nil
  then show ?case by (simp add: barrier_run_def)
next
  case (snoc c calls)
  let ?b = "barrier_run calls b"
  have inv: "barrier_inv ?b" using snoc.prems(1) by (rule barrier_inv_run)
  have IH: "(sb_promise ?b = Fulfilled ()) =
    (\<exists>k. 0 < k \<and> k \<le> length calls \<and> protectCount (barrier_run (take k calls) b) = 0)"
    using snoc by blast
  show ?case
  proof (cases "sb_promise ?b = Fulfilled ()")
    case True
    then obtain k where k: "0 < k" "k \<le> length calls" "protectCount (barrier_run (take k calls) b) = 0"
      using IH by blast
    then have "0 < k \<and> k \<le> length (calls @ [c]) \<and> protectCount (barrier_run (take k (calls @ [c])) b) = 0"
      by simp
    moreover have "sb_promise (barrier_run (calls @ [c]) b) = Fulfilled ()"
      using True by (simp add: barrier_run_snoc barrier_call_fulfilled)
    ultimately show ?thesis by blast
  next
    case False
    then have pend: "sb_promise ?b = Pending" and pos: "0 < protectCount ?b"
      using inv by (auto simp: barrier_inv_def)
    have none: "\<not> (\<exists>k. 0 < k \<and> k \<le> length calls \<and> protectCount (barrier_run (take k calls) b) = 0)"
      using False IH by blast
    have last: "(sb_promise (barrier_run (calls @ [c]) b) = Fulfilled ()) =
       (protectCount (barrier_run (calls @ [c]) b) = 0)"
      using pend pos by (cases c) (auto simp: barrier_run_snoc retain_def release_def waitFor_def Let_def)
    show ?thesis
    proof
      assume "sb_promise (barrier_run (calls @ [c]) b) = Fulfilled ()"
      then have "protectCount (barrier_run (take (Suc (length calls)) (calls @ [c])) b) = 0"
        using last by simp
      then show "\<exists>k. 0 < k \<and> k \<le> length (calls @ [c]) \<and> protectCount (barrier_run (take k (calls @ [c])) b) = 0"
        by (intro exI[of _ "Suc (length calls)"]) simp
    next
      assume "\<exists>k. 0 < k \<and> k \<le> length (calls @ [c]) \<and> protectCount (barrier_run (take k (calls @ [c])) b) = 0"
      then obtain k where k: "0 < k" "k \<le> length (calls @ [c])"
          "protectCount (barrier_run (take k (calls @ [c])) b) = 0"
        by blast
      show "sb_promise (barrier_run (calls @ [c]) b) = Fulfilled ()"
      proof (cases "k \<le> length calls")
        case True
        with k none show ?thesis by auto
      next
        case False
        with k have "k = Suc (length calls)" by simp
        with k last show ?thesis by simp
      qed
    qed
  qed
qed

lemma barrier_never_rejected: "barrier_inv b \<Longrightarrow> sb_promise (barrier_run calls b) \<noteq> Rejected e"
  using barrier_inv_run[of b calls] by (auto simp: barrier_inv_def)

lemma fold_update_barrier:
  "distinct bs \<Longrightarrow>
   barrierStore (fold (\<lambda>b. update_barrier b g) bs s) b =
     (if b \<in> set bs then g (barrierStore s b) else barrierStore s b)"
  by (induction bs arbitrary: s) (auto simp: update_barrier_def)

lemma addFrameNavigation_barrier:
  "barrierStore (SignalBarrier_addFrameNavigation f b s) b = retain (barrierStore s b)"
  by (simp add: SignalBarrier_addFrameNavigation_def new_FrameTask_def update_barrier_def
      update_task_def update_frame_def Let_def)

lemma addFrameNavigation_settled_barrier:
  "barrierStore (SignalBarrier_addFrameNavigation_settled t b s) b = release (barrierStore s b)"
  by (simp add: SignalBarrier_addFrameNavigation_settled_def FrameTask_done_def update_barrier_def
      update_frame_def)

text \<open>
  C7. A barrier is created with \<open>protectCount = 1\<close> and a pending latch. Whatever sequence
  of \<open>retain\<close>, \<open>release\<close> and \<open>waitFor\<close> calls reaches it, the latch is resolved after
  the sequence exactly if the count was zero after some non-empty prefix: it resolves at
  the first return of the count to zero, stays pending while the count has been positive
  throughout, and is never rejected. The frame manager's two announcements and
  \<^verbatim>\<open>addFrameNavigation\<close> reach an active barrier as one \<open>retain\<close> or one \<open>release\<close> each.
\<close>

theorem signal_barrier_latch:
  assumes "distinct (signalBarriers s)" and "b \<in> set (signalBarriers s)"
  shows "protectCount (new_SignalBarrier progress) = 1
       \<and> sb_promise (new_SignalBarrier progress) = Pending
       \<and> ((sb_promise (barrier_run calls (new_SignalBarrier progress)) = Fulfilled ()) =
            (\<exists>k. 0 < k \<and> k \<le> length calls
                \<and> protectCount (barrier_run (take k calls) (new_SignalBarrier progress)) = 0))
       \<and> sb_promise (barrier_run calls (new_SignalBarrier progress)) \<noteq> Rejected e
       \<and> barrierStore (frameWillPotentiallyRequestNavigation s) b = retain (barrierStore s b)
       \<and> barrierStore (frameDidPotentiallyRequestNavigation s) b = release (barrierStore s b)
       \<and> barrierStore (SignalBarrier_addFrameNavigation f b s) b = retain (barrierStore s b)
       \<and> barrierStore (SignalBarrier_addFrameNavigation_settled t b s) b = release (barrierStore s b)"
proof -
  have new: "protectCount (new_SignalBarrier progress) = 1" "sb_promise (new_SignalBarrier progress) = Pending"
    by (simp_all add: new_SignalBarrier_def retain_def)
  have will: "barrierStore (frameWillPotentiallyRequestNavigation s) b = retain (barrierStore s b)"
    using assms by (simp add: frameWillPotentiallyRequestNavigation_def fold_update_barrier)
  have did: "barrierStore (frameDidPotentiallyRequestNavigation s) b = release (barrierStore s b)"
    using assms by (simp add: frameDidPotentiallyRequestNavigation_def fold_update_barrier)
  show ?thesis
    using new will did barrier_latch[OF barrier_inv_new new(2)]
      barrier_never_rejected[OF barrier_inv_new]
      addFrameNavigation_barrier addFrameNavigation_settled_barrier
    by simp
qed

theorem signal_barrier_latch_witness:
  "distinct (signalBarriers (snd (waitForSignalsCreatedBy_begin None new_FrameManager)))
   \<and> 0 \<in> set (signalBarriers (snd (waitForSignalsCreatedBy_begin None new_FrameManager)))
   \<and> protectCount (new_SignalBarrier None) = 1
   \<and> sb_promise (barrier_run [Retain, WaitFor, Release] (new_SignalBarrier None)) = Fulfilled ()
   \<and> sb_promise (barrier_run [Retain, WaitFor] (new_SignalBarrier None)) = Pending
   \<and> protectCount (barrierStore (frameWillPotentiallyRequestNavigation
         (snd (waitForSignalsCreatedBy_begin None new_FrameManager))) 0) = 2"
proof -
  let ?s = "snd (waitForSignalsCreatedBy_begin None new_FrameManager)"
  have d: "distinct (signalBarriers ?s)" and m: "0 \<in> set (signalBarriers ?s)"
    by (simp_all add: waitForSignalsCreatedBy_begin_def new_FrameManager_def set_add_def)
  have st: "barrierStore ?s 0 = new_SignalBarrier None"
    by (simp add: waitForSignalsCreatedBy_begin_def new_FrameManager_def)
  have run: "sb_promise (barrier_run [Retain, WaitFor, Release] (new_SignalBarrier None)) = Fulfilled ()"
       "sb_promise (barrier_run [Retain, WaitFor] (new_SignalBarrier None)) = Pending"
    by (simp_all add: barrier_run_def new_SignalBarrier_def retain_def release_def waitFor_def)
  from signal_barrier_latch[OF d m, where progress = None and calls = "[Retain, WaitFor, Release]"]
    d m st run show ?thesis
    by (simp add: retain_def)
qed

subsection \<open>Waiting for a specific document (C1)\<close>

lemma deliver_specific:
  "ft_onSpecificDocument (deliver t n) =
     map_option (notify_specific (fst (snd n)) (snd (snd n))) (ft_onSpecificDocument t)"
  by (cases n) (simp add: deliver_def FrameTask_onNewDocument_def)

text \<open>A settled wait is not touched by any later notification.\<close>

lemma deliver_all_settled:
  "ft_onSpecificDocument t = Some w \<Longrightarrow> specific_promise w \<noteq> Pending \<Longrightarrow>
   \<exists>w'. ft_onSpecificDocument (deliver_all ns t) = Some w' \<and> expectedDocumentId w' = expectedDocumentId w
      \<and> specific_promise w' = specific_promise w"
proof (induction ns arbitrary: t w)
  case Nil
  then show ?case by (simp add: deliver_all_def)
next
  case (Cons n ns)
  obtain u d e where n: "n = (u, d, e)" by (cases n) auto
  let ?w = "notify_specific d e w"
  have 1: "ft_onSpecificDocument (deliver t n) = Some ?w"
    using Cons.prems(1) by (simp add: deliver_specific n)
  have 2: "specific_promise ?w = specific_promise w" "expectedDocumentId ?w = expectedDocumentId w"
    using Cons.prems(2) by (cases "specific_promise w"; cases e; simp add: notify_specific_def)+
  from Cons.IH[OF 1] 2 Cons.prems(2) show ?case
    by (simp add: deliver_all_def)
qed

lemma deliver_all_pending:
  "ft_onSpecificDocument t = Some w \<Longrightarrow> specific_promise w = Pending \<Longrightarrow>
   specific_state (deliver_all ns t) = Some (specific_outcome (expectedDocumentId w) ns)"
proof (induction ns arbitrary: t w)
  case Nil
  then show ?case by (simp add: deliver_all_def specific_state_def)
next
  case (Cons n ns)
  obtain u d e where n: "n = (u, d, e)" by (cases n) auto
  let ?w = "notify_specific d e w"
  have 1: "ft_onSpecificDocument (deliver t n) = Some ?w"
    using Cons.prems(1) by (simp add: deliver_specific n)
  have ident: "expectedDocumentId ?w = expectedDocumentId w"
    by (cases e; simp add: notify_specific_def)
  show ?case
  proof (cases "specific_promise ?w = Pending")
    case True
    then have skip: "d \<noteq> expectedDocumentId w" "e \<noteq> None"
      using Cons.prems(2) by (auto simp: notify_specific_def split: if_splits option.splits)
    from Cons.IH[OF 1 True] ident skip show ?thesis
      by (auto simp: deliver_all_def n)
  next
    case False
    from deliver_all_settled[OF 1 False, of ns]
    have "specific_state (deliver_all (n # ns) t) = Some (specific_promise ?w)"
      by (auto simp: deliver_all_def specific_state_def)
    moreover have "specific_promise ?w = specific_outcome (expectedDocumentId w) (n # ns)"
      using False Cons.prems(2) by (auto simp: n notify_specific_def split: option.splits)
    ultimately show ?thesis by simp
  qed
qed

text \<open>
  C1, as stated, fails: the wait for document \<open>D1\<close> stays pending, neither resolved nor
  rejected, when a navigation to another document \<open>D2\<close> is reported as failed.
\<close>

theorem waitForSpecificDocument_other_failure_counterexample:
  "specific_state
     (FrameTask_onNewDocument ''https://a/'' ''D2'' (Some (Error ''net::ERR_ABORTED''))
        (fst (waitForSpecificDocument ''D1'' (fresh_task 0)))) = Some Pending
   \<and> specific_state
     (FrameTask_onNewDocument ''https://a/'' ''D2'' (Some (Error ''net::ERR_ABORTED''))
        (fst (waitForSpecificDocument ''D1'' (fresh_task 0))))
       \<noteq> Some (Rejected (Error ''Navigation interrupted by another one''))"
  by (simp add: waitForSpecificDocument_def FrameTask_onNewDocument_def notify_specific_def
      specific_state_def fresh_task_def)

text \<open>
  C1, amended. On a task with no specific-document waiter yet, \<open>waitForSpecificDocument\<close>
  returns a pending promise. That promise is resolved by \<open>onNewDocument\<close> for the expected
  id without an error, rejected with the error by \<open>onNewDocument\<close> for the expected id
  with an error, rejected with "Navigation interrupted by another one" by \<open>onNewDocument\<close>
  for another id without an error, and left pending by \<open>onNewDocument\<close> for another id
  with an error. Over any sequence of notifications the first one that carries the expected
  id or reports a commit decides, and the promise stays pending if there is none.
\<close>

theorem waitForSpecificDocument_outcome:
  assumes "ft_onSpecificDocument t = None"
  shows "snd (waitForSpecificDocument expected t) = Pending
       \<and> specific_state (fst (waitForSpecificDocument expected t)) = Some Pending
       \<and> specific_state (FrameTask_onNewDocument u expected None (fst (waitForSpecificDocument expected t)))
            = Some (Fulfilled ())
       \<and> specific_state (FrameTask_onNewDocument u expected (Some e) (fst (waitForSpecificDocument expected t)))
            = Some (Rejected e)
       \<and> (other \<noteq> expected \<longrightarrow>
            specific_state (FrameTask_onNewDocument u other None (fst (waitForSpecificDocument expected t)))
              = Some (Rejected (Error ''Navigation interrupted by another one''))
          \<and> specific_state (FrameTask_onNewDocument u other (Some e) (fst (waitForSpecificDocument expected t)))
              = Some Pending)
       \<and> specific_state (deliver_all ns (fst (waitForSpecificDocument expected t)))
            = Some (specific_outcome expected ns)"
proof -
  let ?t = "fst (waitForSpecificDocument expected t)"
  have w: "ft_onSpecificDocument ?t = Some \<lparr>expectedDocumentId = expected, specific_promise = Pending\<rparr>"
    and p: "snd (waitForSpecificDocument expected t) = Pending"
    using assms by (simp_all add: waitForSpecificDocument_def)
  have single: "specific_state (FrameTask_onNewDocument u' d x ?t)
      = Some (specific_promise (notify_specific d x \<lparr>expectedDocumentId = expected, specific_promise = Pending\<rparr>))"
    for u' d x
    using w by (simp add: specific_state_def FrameTask_onNewDocument_def)
  have seq: "specific_state (deliver_all ns ?t) = Some (specific_outcome expected ns)"
    using deliver_all_pending[OF w, of ns] by simp
  show ?thesis
    using p w seq by (simp add: single notify_specific_def) (simp add: specific_state_def)
qed

theorem waitForSpecificDocument_outcome_witness:
  "ft_onSpecificDocument (fresh_task 0) = None
   \<and> ''D2'' \<noteq> ''D1''
   \<and> snd (waitForSpecificDocument ''D1'' (fresh_task 0)) = Pending
   \<and> specific_state (FrameTask_onNewDocument ''https://a/'' ''D1'' None
        (fst (waitForSpecificDocument ''D1'' (fresh_task 0)))) = Some (Fulfilled ())
   \<and> specific_state (FrameTask_onNewDocument ''https://a/'' ''D2'' None
        (fst (waitForSpecificDocument ''D1'' (fresh_task 0))))
        = Some (Rejected (Error ''Navigation interrupted by another one''))
   \<and> specific_state (deliver_all
        [(''https://a/'', ''D2'', Some (Error ''net::ERR_ABORTED'')), (''https://a/'', ''D1'', None)]
        (fst (waitForSpecificDocument ''D1'' (fresh_task 0)))) = Some (Fulfilled ())"
proof -
  have h: "ft_onSpecificDocument (fresh_task 0) = None" by (simp add: fresh_task_def)
  from waitForSpecificDocument_outcome[OF h, where expected = "''D1''" and other = "''D2''"
      and u = "''https://a/''"
      and ns = "[(''https://a/'', ''D2'', Some (Error ''net::ERR_ABORTED'')), (''https://a/'', ''D1'', None)]"]
  show ?thesis using h by simp
qed

subsection \<open>Detaching frames and rerunnable tasks (C3)\<close>

lemma fold_option_rel:
  assumes "\<And>x s s'. x \<in> set xs \<Longrightarrow> body x s = Some s' \<Longrightarrow> R s s'"
    and "\<And>s. R s s" and "\<And>a b c. R a b \<Longrightarrow> R b c \<Longrightarrow> R a c"
    and "fold_option body xs s = Some s'"
  shows "R s s'"
  using assms(1,4)
proof (induction xs arbitrary: s)
  case Nil
  then show ?case using assms(2) by simp
next
  case (Cons x xs)
  from Cons.prems(2) obtain s1 where 1: "body x s = Some s1" and 2: "fold_option body xs s1 = Some s'"
    by (auto split: option.splits)
  have "R s s1" using Cons.prems(1)[of x s s1] 1 by simp
  moreover have "R s1 s'" using Cons.IH[OF _ 2] Cons.prems(1) by (meson list.set_intros(2))
  ultimately show ?case using assms(3) by blast
qed

lemma promise_reject_idem: "promise_reject e (promise_reject e p) = promise_reject e p"
  by (cases p) simp_all

lemma detach_step_refl: "detach_step s s"
  by (simp add: detach_step_def)

lemma detach_step_trans: "detach_step a b \<Longrightarrow> detach_step b c \<Longrightarrow> detach_step a c"
  unfolding detach_step_def
  by (metis promise_reject_idem)

lemma shrinks_refl: "shrinks s s"
  by (simp add: shrinks_def)

lemma shrinks_trans: "shrinks a b \<Longrightarrow> shrinks b c \<Longrightarrow> shrinks a c"
  unfolding shrinks_def by blast

lemma fold_update_rerun_frameStore:
  "frameStore (fold (\<lambda>r. update_rerun r g) rs s) = frameStore s"
  by (induction rs arbitrary: s) (simp_all add: update_rerun_def)

lemma fold_update_rerun_frames:
  "frames (fold (\<lambda>r. update_rerun r g) rs s) = frames s"
  by (induction rs arbitrary: s) (simp_all add: update_rerun_def)

lemma fold_update_rerun_store:
  "(\<And>x. g (g x) = g x) \<Longrightarrow>
   rerunStore (fold (\<lambda>r. update_rerun r g) rs s) r =
     (if r \<in> set rs then g (rerunStore s r) else rerunStore s r)"
  by (induction rs arbitrary: s) (auto simp: update_rerun_def)

lemma terminate_idem:
  "RerunnableTask_terminate e (RerunnableTask_terminate e t) = RerunnableTask_terminate e t"
  by (simp add: RerunnableTask_terminate_def promise_reject_idem)

lemma terminate_all_frameStore: "frameStore (terminate_all f s) = frameStore s"
  by (simp add: terminate_all_def fold_update_rerun_frameStore)

lemma terminate_all_store:
  "rerunStore (terminate_all f s) r =
    (if r \<in> set (rerunnableTasks (contextData (frameStore s f) main))
        \<union> set (rerunnableTasks (contextData (frameStore s f) utility))
     then RerunnableTask_terminate detached_error (rerunStore s r) else rerunStore s r)"
  by (simp add: terminate_all_def fold_update_rerun_frameStore fold_update_rerun_store terminate_idem
      detached_error_def)

lemma Frame_onDetached_alt:
  "Frame_onDetached f s =
     (let s1 = update_frame f (\<lambda>fr. fr\<lparr>detached := True,
                                         detachedPromise := promise_resolve () (detachedPromise fr)\<rparr>) s;
          s2 = terminate_all f s1;
          s3 = (case parentFrame (frameStore s2 f) of
                  Some p \<Rightarrow> update_frame p (\<lambda>pf. pf\<lparr>childFrames := set_delete f (childFrames pf)\<rparr>) s2
                | None \<Rightarrow> s2)
      in update_frame f (\<lambda>fr. fr\<lparr>parentFrame := None\<rparr>) s3)"
  by (simp add: Frame_onDetached_def terminate_all_def Let_def)

lemma Frame_onDetached_rerunStore:
  "rerunStore (Frame_onDetached f s) r =
    (if r \<in> set (rerunnableTasks (contextData (frameStore s f) main))
        \<union> set (rerunnableTasks (contextData (frameStore s f) utility))
     then RerunnableTask_terminate detached_error (rerunStore s r) else rerunStore s r)"
  by (simp add: Frame_onDetached_alt Let_def update_frame_def terminate_all_store terminate_all_frameStore
      split: option.splits)

lemma Frame_onDetached_contextData:
  "contextData (frameStore (Frame_onDetached f s) g) = contextData (frameStore s g)"
  by (simp add: Frame_onDetached_alt Let_def update_frame_def terminate_all_frameStore
      split: option.splits)

lemma Frame_onDetached_childFrames:
  "set (childFrames (frameStore (Frame_onDetached f s) g)) \<subseteq> set (childFrames (frameStore s g))"
  by (auto simp: Frame_onDetached_alt Let_def update_frame_def terminate_all_frameStore set_delete_def
      split: option.splits)

lemma Frame_onDetached_detach_step: "detach_step s (Frame_onDetached f s)"
  by (simp add: detach_step_def Frame_onDetached_contextData Frame_onDetached_rerunStore
      RerunnableTask_terminate_def)

lemma Frame_onDetached_shrinks: "shrinks s (Frame_onDetached f s)"
  by (simp add: shrinks_def Frame_onDetached_childFrames)


lemma height_le_shrinks: "height_le n s f \<Longrightarrow> shrinks s s' \<Longrightarrow> height_le n s' f"
proof (induction n arbitrary: f)
  case 0
  then show ?case by simp
next
  case (Suc n)
  have sub: "set (childFrames (frameStore s' f)) \<subseteq> set (childFrames (frameStore s f))"
    using Suc.prems(2) by (simp add: shrinks_def)
  show ?case
    using Suc.prems(1) Suc.IH[OF _ Suc.prems(2)] sub
    by (auto simp: list_all_iff)
qed

lemma height_le_mono: "height_le n s f \<Longrightarrow> height_le (Suc n) s f"
proof (induction n arbitrary: f)
  case 0
  then show ?case by simp
next
  case (Suc n)
  have "list_all (height_le n s) (childFrames (frameStore s f))"
    using Suc.prems by (simp only: height_le.simps)
  then have "list_all (height_le (Suc n) s) (childFrames (frameStore s f))"
    using Suc.IH by (auto simp: list_all_iff simp del: height_le.simps)
  then show ?case by (simp only: height_le.simps)
qed

lemma remove_emit_shrinks:
  "shrinks s (emit e (Frame_onDetached f s\<lparr>frames := m\<rparr>))"
  using Frame_onDetached_shrinks[of s f] by (simp add: shrinks_def emit_def)

lemma remove_emit_detach_step:
  "detach_step s (emit e (Frame_onDetached f s\<lparr>frames := m\<rparr>))"
  using Frame_onDetached_detach_step[of s f] by (simp add: detach_step_def emit_def)

lemma removeFramesRecursively_rel:
  assumes step: "\<And>s f e m. R s (emit e (Frame_onDetached f s\<lparr>frames := m\<rparr>))"
    and refl: "\<And>s. R s s" and trans: "\<And>a b c. R a b \<Longrightarrow> R b c \<Longrightarrow> R a c"
  shows "removeFramesRecursively n f s = Some s' \<Longrightarrow> R s s'"
proof (induction n arbitrary: f s s')
  case 0
  then show ?case by simp
next
  case (Suc n)
  from Suc.prems obtain s1 where
    1: "fold_option (removeFramesRecursively n) (childFrames (frameStore s f)) s = Some s1"
    and 2: "s' = emit (FrameDetached f) (Frame_onDetached f s1\<lparr>frames := (frames (Frame_onDetached f s1))(fid (frameStore (Frame_onDetached f s1) f) := None)\<rparr>)"
    by (auto simp: Let_def split: option.splits)
  have "R s s1"
    by (rule fold_option_rel[where R = R, OF _ refl trans 1]) (rule Suc.IH)
  moreover have "R s1 s'" unfolding 2 by (rule step)
  ultimately show ?case by (rule trans)
qed

lemma removeFramesRecursively_shrinks:
  "removeFramesRecursively n f s = Some s' \<Longrightarrow> shrinks s s'"
  by (rule removeFramesRecursively_rel[where R = shrinks])
     (simp_all add: remove_emit_shrinks shrinks_refl, blast intro: shrinks_trans)

lemma removeFramesRecursively_detach_step:
  "removeFramesRecursively n f s = Some s' \<Longrightarrow> detach_step s s'"
  by (rule removeFramesRecursively_rel[where R = detach_step])
     (simp_all add: remove_emit_detach_step detach_step_refl, blast intro: detach_step_trans)

lemma fold_option_total:
  assumes "\<And>x s. x \<in> set xs \<Longrightarrow> I s \<Longrightarrow> P x s \<Longrightarrow> \<exists>s'. body x s = Some s' \<and> I s' \<and> (\<forall>y. P y s \<longrightarrow> P y s')"
    and "I s" and "\<forall>x\<in>set xs. P x s"
  shows "\<exists>s'. fold_option body xs s = Some s' \<and> I s'"
  using assms
proof (induction xs arbitrary: s)
  case Nil
  then show ?case by simp
next
  case (Cons x xs)
  from Cons.prems(1)[of x s] Cons.prems(2,3)
  obtain s1 where 1: "body x s = Some s1" "I s1" "\<forall>y. P y s \<longrightarrow> P y s1" by auto
  have "\<exists>s'. fold_option body xs s1 = Some s' \<and> I s'"
  proof (rule Cons.IH)
    show "\<And>x s. x \<in> set xs \<Longrightarrow> I s \<Longrightarrow> P x s \<Longrightarrow> \<exists>s'. body x s = Some s' \<and> I s' \<and> (\<forall>y. P y s \<longrightarrow> P y s')"
      using Cons.prems(1) by (meson list.set_intros(2))
    show "I s1" by (rule 1)
    show "\<forall>x\<in>set xs. P x s1" using 1(3) Cons.prems(3) by simp
  qed
  then show ?case using 1 by simp
qed

lemma removeFramesRecursively_total:
  "height_le n s f \<Longrightarrow> \<exists>s'. removeFramesRecursively n f s = Some s'"
proof (induction n arbitrary: f s)
  case 0
  then show ?case by simp
next
  case (Suc n)
  have "\<exists>s1. fold_option (removeFramesRecursively n) (childFrames (frameStore s f)) s = Some s1 \<and> True"
  proof (rule fold_option_total[where P = "\<lambda>c s. height_le n s c" and I = "\<lambda>s. True"])
    fix x s0
    assume h: "height_le n s0 x"
    from Suc.IH[OF h] obtain s' where s': "removeFramesRecursively n x s0 = Some s'" by blast
    have "shrinks s0 s'" using s' by (rule removeFramesRecursively_shrinks)
    then have "\<forall>y. height_le n s0 y \<longrightarrow> height_le n s' y" using height_le_shrinks by blast
    then show "\<exists>s'. removeFramesRecursively n x s0 = Some s' \<and> True \<and> (\<forall>y. height_le n s0 y \<longrightarrow> height_le n s' y)"
      using s' by simp
  next
    show "\<forall>x\<in>set (childFrames (frameStore s f)). height_le n s x"
      using Suc.prems by (simp add: list_all_iff)
  qed simp
  then show ?case by (auto simp: Let_def)
qed


lemma removeFramesRecursively_unfold:
  "removeFramesRecursively n f s = Some s' \<Longrightarrow>
   \<exists>m s1. n = Suc m \<and> removeChildFramesRecursively m f s = Some s1
     \<and> s' = emit (FrameDetached f)
          (Frame_onDetached f s1\<lparr>frames := (frames (Frame_onDetached f s1))(fid (frameStore (Frame_onDetached f s1) f) := None)\<rparr>)"
  by (cases n) (auto simp: removeChildFramesRecursively_def Let_def split: option.splits)

lemma removeChildFramesRecursively_detach_step:
  "removeChildFramesRecursively n f s = Some s' \<Longrightarrow> detach_step s s'"
  unfolding removeChildFramesRecursively_def
  by (rule fold_option_rel[where R = detach_step and body = "removeFramesRecursively n"])
     (auto intro: removeFramesRecursively_detach_step detach_step_refl detach_step_trans)

lemma removeChildFramesRecursively_shrinks:
  "removeChildFramesRecursively n f s = Some s' \<Longrightarrow> shrinks s s'"
  unfolding removeChildFramesRecursively_def
  by (rule fold_option_rel[where R = shrinks and body = "removeFramesRecursively n"])
     (auto intro: removeFramesRecursively_shrinks shrinks_refl shrinks_trans)

lemma slot_tasks_union:
  "r \<in> set (rerunnableTasks (contextData fr w)) \<Longrightarrow>
   r \<in> set (rerunnableTasks (contextData fr main)) \<union> set (rerunnableTasks (contextData fr utility))"
  by (cases w) simp_all

lemma removeFramesRecursively_terminates_tasks:
  assumes "removeFramesRecursively n f s = Some s'"
    and "r \<in> set (rerunnableTasks (contextData (frameStore s f) w))"
  shows "rt_promise (rerunStore s' r) = promise_reject detached_error (rt_promise (rerunStore s r))"
proof -
  from removeFramesRecursively_unfold[OF assms(1)] obtain m s1 where
    1: "removeChildFramesRecursively m f s = Some s1"
    and 2: "s' = emit (FrameDetached f)
          (Frame_onDetached f s1\<lparr>frames := (frames (Frame_onDetached f s1))(fid (frameStore (Frame_onDetached f s1) f) := None)\<rparr>)"
    by blast
  have ds: "detach_step s s1" using 1 by (rule removeChildFramesRecursively_detach_step)
  then have cd: "contextData (frameStore s1 f) = contextData (frameStore s f)"
    by (simp add: detach_step_def)
  have mem: "r \<in> set (rerunnableTasks (contextData (frameStore s1 f) main))
        \<union> set (rerunnableTasks (contextData (frameStore s1 f) utility))"
    using assms(2) cd slot_tasks_union by metis
  have "rt_promise (rerunStore s' r) = promise_reject detached_error (rt_promise (rerunStore s1 r))"
    using mem by (simp add: 2 emit_def Frame_onDetached_rerunStore RerunnableTask_terminate_def)
  moreover have "rt_promise (rerunStore s1 r) = rt_promise (rerunStore s r)
     \<or> rt_promise (rerunStore s1 r) = promise_reject detached_error (rt_promise (rerunStore s r))"
    using ds by (simp add: detach_step_def)
  ultimately show ?thesis by (auto simp: promise_reject_idem)
qed

lemma str_includes_iff: "str_includes xs s = (\<exists>p q. xs = p @ s @ q)"
proof (induction xs)
  case Nil
  then show ?case by auto
next
  case (Cons c cs)
  show ?case
  proof
    assume "str_includes (c # cs) s"
    then consider "take (length s) (c # cs) = s" | "str_includes cs s" by auto
    then show "\<exists>p q. c # cs = p @ s @ q"
    proof cases
      case 1
      then have "c # cs = [] @ s @ drop (length s) (c # cs)"
        by (metis append_Nil append_take_drop_id)
      then show ?thesis by blast
    next
      case 2
      then obtain p q where "cs = p @ s @ q" using Cons.IH by blast
      then have "c # cs = (c # p) @ s @ q" by simp
      then show ?thesis by blast
    qed
  next
    assume "\<exists>p q. c # cs = p @ s @ q"
    then obtain p q where pq: "c # cs = p @ s @ q" by blast
    show "str_includes (c # cs) s"
    proof (cases p)
      case Nil
      then have "take (length s) (c # cs) = s" using pq by simp
      then show ?thesis by simp
    next
      case (Cons a p')
      then have "cs = p' @ s @ q" using pq by simp
      then have "str_includes cs s" using Cons.IH by blast
      then show ?thesis by simp
    qed
  qed
qed

lemma fold_update_rerun_distinct:
  "distinct rs \<Longrightarrow>
   rerunStore (fold (\<lambda>r. update_rerun r g) rs s) r =
     (if r \<in> set rs then g (rerunStore s r) else rerunStore s r)"
  by (induction rs arbitrary: s) (auto simp: update_rerun_def)

lemma Frame_setContext_reruns:
  "distinct (rerunnableTasks (contextData (frameStore s f) w)) \<Longrightarrow>
   r \<in> set (rerunnableTasks (contextData (frameStore s f) w)) \<Longrightarrow>
   rerunStore (Frame_setContext w (Some ctx) f s) r = RerunnableTask_rerun ctx (rerunStore s r)"
  by (simp add: Frame_setContext_def Let_def fold_update_rerun_distinct update_data_def update_frame_def
      split: option.splits)

text \<open>Unfolding the example pages.\<close>

lemmas model_defs = frameAttached_def new_Frame_def Frame_setContext_def update_data_def update_frame_def
  new_FrameManager_def state_of_def emit_def set_add_def Let_def

text \<open>
  C3. A rerun that fails with an error whose message contains "Execution context was
  destroyed" or "Cannot find context with specified id" leaves the task as it was, its
  promise unsettled, and the next \<open>_setContext\<close> with a context reruns every task of the
  slot. A rerun that fails with any other error rejects the promise with that error. When
  the frame is detached, by \<open>_onDetached\<close> alone or through \<open>frameDetached\<close> (which returns
  under the height bound), the promise of every task of its slots is rejected with
  "waitForFunction failed: frame got detached."
\<close>

theorem rerunnable_task_errors:
  "(str_includes msg ''Execution context was destroyed''
      \<or> str_includes msg ''Cannot find context with specified id''
     \<longrightarrow> RerunnableTask_rerun_settled (Threw msg) t = t)
   \<and> (\<not> str_includes msg ''Execution context was destroyed''
      \<and> \<not> str_includes msg ''Cannot find context with specified id''
     \<longrightarrow> rt_promise (RerunnableTask_rerun_settled (Threw msg) t) = promise_reject (Error msg) (rt_promise t))
   \<and> (distinct (rerunnableTasks (contextData (frameStore s f) w))
      \<and> r \<in> set (rerunnableTasks (contextData (frameStore s f) w))
     \<longrightarrow> rt_reruns (rerunStore (Frame_setContext w (Some ctx) f s) r) = rt_reruns (rerunStore s r) @ [ctx])
   \<and> (r \<in> set (rerunnableTasks (contextData (frameStore s f) w))
     \<longrightarrow> rt_promise (rerunStore (Frame_onDetached f s) r)
           = promise_reject (Error ''waitForFunction failed: frame got detached.'') (rt_promise (rerunStore s r)))
   \<and> (frames s frameId = Some f \<and> height_le n s f
      \<and> r \<in> set (rerunnableTasks (contextData (frameStore s f) w))
     \<longrightarrow> (\<exists>s'. frameDetached n frameId s = Some s'
           \<and> rt_promise (rerunStore s' r)
               = promise_reject (Error ''waitForFunction failed: frame got detached.'') (rt_promise (rerunStore s r))))"
proof -
  have a: "str_includes msg ''Execution context was destroyed''
      \<or> str_includes msg ''Cannot find context with specified id''
     \<Longrightarrow> RerunnableTask_rerun_settled (Threw msg) t = t"
    by (auto simp: RerunnableTask_rerun_settled_def)
  have b: "\<not> str_includes msg ''Execution context was destroyed''
      \<and> \<not> str_includes msg ''Cannot find context with specified id''
     \<Longrightarrow> rt_promise (RerunnableTask_rerun_settled (Threw msg) t) = promise_reject (Error msg) (rt_promise t)"
    by (simp add: RerunnableTask_rerun_settled_def)
  have c: "distinct (rerunnableTasks (contextData (frameStore s f) w))
      \<and> r \<in> set (rerunnableTasks (contextData (frameStore s f) w))
     \<Longrightarrow> rt_reruns (rerunStore (Frame_setContext w (Some ctx) f s) r) = rt_reruns (rerunStore s r) @ [ctx]"
    by (simp add: Frame_setContext_reruns RerunnableTask_rerun_def)
  have d: "r \<in> set (rerunnableTasks (contextData (frameStore s f) w))
     \<Longrightarrow> rt_promise (rerunStore (Frame_onDetached f s) r)
           = promise_reject (Error ''waitForFunction failed: frame got detached.'') (rt_promise (rerunStore s r))"
    using slot_tasks_union[of r "frameStore s f" w]
    by (simp add: Frame_onDetached_rerunStore RerunnableTask_terminate_def detached_error_def)
  have e: "\<exists>s'. frameDetached n frameId s = Some s'
           \<and> rt_promise (rerunStore s' r)
               = promise_reject (Error ''waitForFunction failed: frame got detached.'') (rt_promise (rerunStore s r))"
    if h: "frames s frameId = Some f \<and> height_le n s f
      \<and> r \<in> set (rerunnableTasks (contextData (frameStore s f) w))"
  proof -
    from h removeFramesRecursively_total[of n s f] obtain s' where
      s': "removeFramesRecursively n f s = Some s'" by blast
    from removeFramesRecursively_terminates_tasks[OF s'] h
    have "rt_promise (rerunStore s' r) = promise_reject detached_error (rt_promise (rerunStore s r))"
      by blast
    then show ?thesis using h s' by (simp add: frameDetached_def detached_error_def)
  qed
  show ?thesis using a b c d e by blast
qed

lemma page_waiting_eval:
  "frames page_waiting ''F'' = Some 0
   \<and> rerunnableTasks (contextData (frameStore page_waiting 0) main) = [5]
   \<and> childFrames (frameStore page_waiting 0) = []
   \<and> rt_promise (rerunStore page_waiting 5) = Pending
   \<and> rt_reruns (rerunStore page_waiting 5) = []"
  by (simp add: page_waiting_def page_main_def Frame_scheduleRerunnableTask_def new_RerunnableTask_def
      update_rerun_def model_defs)

theorem rerunnable_task_errors_witness:
  "str_includes ''Protocol error: Execution context was destroyed.'' ''Execution context was destroyed''
   \<and> RerunnableTask_rerun_settled (Threw ''Protocol error: Execution context was destroyed.'')
        (rerunStore page_waiting 5) = rerunStore page_waiting 5
   \<and> \<not> str_includes ''boom'' ''Execution context was destroyed''
   \<and> \<not> str_includes ''boom'' ''Cannot find context with specified id''
   \<and> rt_promise (RerunnableTask_rerun_settled (Threw ''boom'') (rerunStore page_waiting 5)) = Rejected (Error ''boom'')
   \<and> distinct (rerunnableTasks (contextData (frameStore page_waiting 0) main))
   \<and> 5 \<in> set (rerunnableTasks (contextData (frameStore page_waiting 0) main))
   \<and> rt_reruns (rerunStore (Frame_setContext main (Some 42) 0 page_waiting) 5) = [42]
   \<and> frames page_waiting ''F'' = Some 0 \<and> height_le (Suc 0) page_waiting 0
   \<and> (\<exists>s'. frameDetached (Suc 0) ''F'' page_waiting = Some s'
         \<and> rt_promise (rerunStore s' 5) = Rejected (Error ''waitForFunction failed: frame got detached.''))"
proof -
  note ev = page_waiting_eval
  have inc: "str_includes ''Protocol error: Execution context was destroyed.'' ''Execution context was destroyed''"
    "\<not> str_includes ''boom'' ''Execution context was destroyed''"
    "\<not> str_includes ''boom'' ''Cannot find context with specified id''"
    by simp_all
  have h: "height_le (Suc 0) page_waiting 0" using ev by simp
  from rerunnable_task_errors[where msg = "''Protocol error: Execution context was destroyed.''"
      and t = "rerunStore page_waiting 5" and s = page_waiting and f = 0 and w = main and r = 5
      and ctx = 42 and frameId = "''F''" and n = "Suc 0"]
    rerunnable_task_errors[where msg = "''boom''" and t = "rerunStore page_waiting 5"]
    ev inc h
  show ?thesis by simp
qed

subsection \<open>Installing a context twice (C9)\<close>

lemma fold_update_rerun_promiseStore:
  "promiseStore (fold (\<lambda>r. update_rerun r g) rs s) = promiseStore s"
  by (induction rs arbitrary: s) (simp_all add: update_rerun_def)

lemma Frame_setContext_None:
  "frameStore (Frame_setContext w None f s) f =
     (frameStore s f)\<lparr>contextData := (contextData (frameStore s f))
        (w := (contextData (frameStore s f) w)\<lparr>cd_context := None, contextPromise := nextRef s,
                                                contextResolveCallback := Some (nextRef s)\<rparr>)\<rparr>
   \<and> promiseStore (Frame_setContext w None f s) = (promiseStore s)(nextRef s := Pending)"
  by (simp add: Frame_setContext_def update_data_def update_frame_def Let_def)

lemma Frame_setContext_Some:
  "contextData (frameStore (Frame_setContext w (Some ctx) f s) f) w
      = (contextData (frameStore s f) w)\<lparr>cd_context := Some ctx\<rparr>
   \<and> detached (frameStore (Frame_setContext w (Some ctx) f s) f) = detached (frameStore s f)
   \<and> promiseStore (Frame_setContext w (Some ctx) f s) =
       (case contextResolveCallback (contextData (frameStore s f) w) of
          None \<Rightarrow> promiseStore s
        | Some p \<Rightarrow> (promiseStore s)(p := promise_resolve ctx (promiseStore s p)))"
  by (simp add: Frame_setContext_def update_data_def update_frame_def Let_def
      fold_update_rerun_promiseStore fold_update_rerun_frameStore split: option.splits)

text \<open>
  C9. When the slot of world \<open>w\<close> already holds \<open>ctx\<close>, \<open>_contextCreated(w, ctx)\<close> leaves the
  slot holding \<open>ctx\<close>, with one promise (a new one) that is fulfilled with \<open>ctx\<close>; on a frame
  that is not detached \<open>_context(w)\<close> then returns that promise.
\<close>

theorem contextCreated_idempotent:
  assumes "cd_context (contextData (frameStore s f) w) = Some ctx"
  shows "cd_context (contextData (frameStore (Frame_contextCreated w ctx f s) f) w) = Some ctx
       \<and> contextPromise (contextData (frameStore (Frame_contextCreated w ctx f s) f) w) = nextRef s
       \<and> promiseStore (Frame_contextCreated w ctx f s)
            (contextPromise (contextData (frameStore (Frame_contextCreated w ctx f s) f) w)) = Fulfilled ctx
       \<and> (\<not> detached (frameStore s f) \<longrightarrow>
            (case Frame_context w f (Frame_contextCreated w ctx f s) of
               Inl e \<Rightarrow> False
             | Inr p \<Rightarrow> promiseStore (Frame_contextCreated w ctx f s) p = Fulfilled ctx))"
proof -
  let ?s1 = "Frame_setContext w None f s"
  have cc: "Frame_contextCreated w ctx f s = Frame_setContext w (Some ctx) f ?s1"
    using assms by (simp add: Frame_contextCreated_def)
  have d1: "contextData (frameStore ?s1 f) w = (contextData (frameStore s f) w)
      \<lparr>cd_context := None, contextPromise := nextRef s, contextResolveCallback := Some (nextRef s)\<rparr>"
    and det1: "detached (frameStore ?s1 f) = detached (frameStore s f)"
    and p1: "promiseStore ?s1 (nextRef s) = Pending"
    by (simp_all add: Frame_setContext_None)
  have d2: "contextData (frameStore (Frame_contextCreated w ctx f s) f) w
      = (contextData (frameStore s f) w)\<lparr>cd_context := Some ctx, contextPromise := nextRef s,
           contextResolveCallback := Some (nextRef s)\<rparr>"
    by (simp add: cc Frame_setContext_Some d1)
  have p2: "promiseStore (Frame_contextCreated w ctx f s) (nextRef s) = Fulfilled ctx"
    by (simp add: cc Frame_setContext_Some d1 p1)
  have det2: "detached (frameStore (Frame_contextCreated w ctx f s) f) = detached (frameStore s f)"
    by (simp add: cc Frame_setContext_Some det1)
  show ?thesis
    using d2 p2 det2 by (simp add: Frame_context_def)
qed


lemma page_context_eval:
  "cd_context (contextData (frameStore page_context 0) main) = Some 7
   \<and> nextRef page_context = 5 \<and> \<not> detached (frameStore page_context 0)
   \<and> contextPromise (contextData (frameStore page_context 0) main) = 3
   \<and> promiseStore page_context 3 = Fulfilled 7"
  by (simp add: page_context_def page_main_def Frame_contextCreated_def model_defs)

theorem contextCreated_idempotent_witness:
  "cd_context (contextData (frameStore page_context 0) main) = Some 7
   \<and> \<not> detached (frameStore page_context 0)
   \<and> cd_context (contextData (frameStore (Frame_contextCreated main 7 0 page_context) 0) main) = Some 7
   \<and> contextPromise (contextData (frameStore (Frame_contextCreated main 7 0 page_context) 0) main) = 5
   \<and> promiseStore (Frame_contextCreated main 7 0 page_context) 5 = Fulfilled 7
   \<and> Frame_context main 0 (Frame_contextCreated main 7 0 page_context) = Inr 5"
proof -
  have h: "cd_context (contextData (frameStore page_context 0) main) = Some 7"
    and e: "nextRef page_context = 5" "\<not> detached (frameStore page_context 0)"
    using page_context_eval by simp_all
  from contextCreated_idempotent[OF h] h e show ?thesis
    by (auto simp: Frame_context_def split: sum.splits)
qed

subsection \<open>Context of a detached frame (C8)\<close>

lemma terminate_all_promiseStore: "promiseStore (terminate_all f s) = promiseStore s"
  by (simp add: terminate_all_def fold_update_rerun_promiseStore fold_update_rerun_frameStore)

lemma Frame_onDetached_keeps: "keeps_promises s (Frame_onDetached f s)"
  by (simp add: keeps_promises_def Frame_onDetached_alt Let_def update_frame_def
      terminate_all_frameStore terminate_all_promiseStore split: option.splits)

lemma Frame_onDetached_detached: "detached (frameStore (Frame_onDetached f s) f)"
  by (simp add: Frame_onDetached_alt Let_def update_frame_def
      terminate_all_frameStore split: option.splits)

lemma keeps_promises_refl: "keeps_promises s s"
  by (simp add: keeps_promises_def)

lemma keeps_promises_trans: "keeps_promises a b \<Longrightarrow> keeps_promises b c \<Longrightarrow> keeps_promises a c"
  by (simp add: keeps_promises_def)

lemma remove_emit_keeps:
  "keeps_promises s (emit e (Frame_onDetached f s\<lparr>frames := m\<rparr>))"
  using Frame_onDetached_keeps[of s f] by (simp add: keeps_promises_def emit_def)

lemma removeFramesRecursively_keeps:
  "removeFramesRecursively n f s = Some s' \<Longrightarrow> keeps_promises s s'"
  by (rule removeFramesRecursively_rel[where R = keeps_promises])
     (simp_all add: remove_emit_keeps keeps_promises_refl, blast intro: keeps_promises_trans)

lemma removeChildFramesRecursively_keeps:
  "removeChildFramesRecursively n f s = Some s' \<Longrightarrow> keeps_promises s s'"
  unfolding removeChildFramesRecursively_def
  by (rule fold_option_rel[where R = keeps_promises and body = "removeFramesRecursively n"])
     (auto intro: removeFramesRecursively_keeps keeps_promises_refl keeps_promises_trans)

lemma removeFramesRecursively_detached:
  assumes "removeFramesRecursively n f s = Some s'"
  shows "detached (frameStore s' f)"
proof -
  from removeFramesRecursively_unfold[OF assms] obtain m s1 where
    "s' = emit (FrameDetached f)
          (Frame_onDetached f s1\<lparr>frames := (frames (Frame_onDetached f s1))(fid (frameStore (Frame_onDetached f s1) f) := None)\<rparr>)"
    by blast
  then show ?thesis by (simp add: emit_def Frame_onDetached_detached)
qed

text \<open>
  C8, amended. \<open>_context(world)\<close> on a detached frame throws the error "Execution Context is
  not available in detached frame "url" (are you trying to evaluate?)". Detaching a frame,
  by \<open>_onDetached\<close> alone or through \<open>frameDetached\<close>, makes every later \<open>_context\<close> call
  throw that error and settles no context promise: every promise is in the state it was
  in, and the slot keeps its promise.
\<close>

theorem context_of_detached_frame:
  "(detached (frameStore s f) \<longrightarrow> Frame_context w f s = Inl (detached_context_error (url (frameStore s f))))
   \<and> Frame_context w f (Frame_onDetached f s) = Inl (detached_context_error (url (frameStore s f)))
   \<and> promiseStore (Frame_onDetached f s) = promiseStore s
   \<and> contextPromise (contextData (frameStore (Frame_onDetached f s) f) w)
        = contextPromise (contextData (frameStore s f) w)
   \<and> (frames s frameId = Some f \<and> height_le n s f \<longrightarrow>
        (\<exists>s'. frameDetached n frameId s = Some s'
           \<and> Frame_context w f s' = Inl (detached_context_error (url (frameStore s f)))
           \<and> promiseStore s' = promiseStore s
           \<and> contextPromise (contextData (frameStore s' f) w) = contextPromise (contextData (frameStore s f) w)))"
proof -
  have a: "detached (frameStore s f) \<Longrightarrow> Frame_context w f s = Inl (detached_context_error (url (frameStore s f)))"
    by (simp add: Frame_context_def detached_context_error_def)
  have k: "keeps_promises s (Frame_onDetached f s)" by (rule Frame_onDetached_keeps)
  have b: "Frame_context w f (Frame_onDetached f s) = Inl (detached_context_error (url (frameStore s f)))"
    using k Frame_onDetached_detached[of f s]
    by (simp add: Frame_context_def detached_context_error_def keeps_promises_def)
  have c: "\<exists>s'. frameDetached n frameId s = Some s'
           \<and> Frame_context w f s' = Inl (detached_context_error (url (frameStore s f)))
           \<and> promiseStore s' = promiseStore s
           \<and> contextPromise (contextData (frameStore s' f) w) = contextPromise (contextData (frameStore s f) w)"
    if h: "frames s frameId = Some f \<and> height_le n s f"
  proof -
    from h removeFramesRecursively_total[of n s f] obtain s' where
      s': "removeFramesRecursively n f s = Some s'" by blast
    have k': "keeps_promises s s'" using s' by (rule removeFramesRecursively_keeps)
    have d': "detached (frameStore s' f)" using s' by (rule removeFramesRecursively_detached)
    show ?thesis
      using h s' k' d'
      by (simp add: frameDetached_def Frame_context_def detached_context_error_def keeps_promises_def)
  qed
  show ?thesis using a b c k by (simp add: keeps_promises_def)
qed

text \<open>
  C8, as stated, fails: the promise that \<open>_context(main)\<close> handed out on the example page is
  pending, and it is still pending, not rejected, after the frame has been detached.
\<close>

theorem pending_context_counterexample:
  "Frame_context main 0 page_main = Inr 3
   \<and> promiseStore page_main 3 = Pending
   \<and> detached (frameStore (Frame_onDetached 0 page_main) 0)
   \<and> promiseStore (Frame_onDetached 0 page_main) 3 = Pending"
  by (simp add: page_main_def model_defs Frame_context_def Frame_onDetached_def)

theorem context_of_detached_frame_witness:
  "frames page_main ''F'' = Some 0 \<and> height_le (Suc 0) page_main 0
   \<and> detached (frameStore (Frame_onDetached 0 page_main) 0)
   \<and> Frame_context main 0 (Frame_onDetached 0 page_main) = Inl (detached_context_error [])
   \<and> promiseStore (Frame_onDetached 0 page_main) 3 = Pending
   \<and> (\<exists>s'. frameDetached (Suc 0) ''F'' page_main = Some s'
         \<and> Frame_context main 0 s' = Inl (detached_context_error [])
         \<and> promiseStore s' 3 = Pending)"
proof -
  have ev: "frames page_main ''F'' = Some 0" "childFrames (frameStore page_main 0) = []"
    "url (frameStore page_main 0) = []" "promiseStore page_main 3 = Pending"
    by (simp_all add: page_main_def model_defs)
  have h: "height_le (Suc 0) page_main 0" using ev by simp
  from context_of_detached_frame[where s = page_main and f = 0 and w = main and frameId = "''F''" and n = "Suc 0"]
    context_of_detached_frame[where s = "Frame_onDetached 0 page_main" and f = 0 and w = main]
    ev h Frame_onDetached_detached[of 0 page_main]
  show ?thesis by auto
qed

subsection \<open>Events for an unknown frame id (C10)\<close>

text \<open>
  C10. For a frame id that is not in the frame map, \<open>frameRequestedNavigation\<close>,
  \<open>frameUpdatedDocumentIdForNavigation\<close>, \<open>frameCommittedSameDocumentNavigation\<close>,
  \<open>frameDetached\<close>, \<open>frameLifecycleEvent\<close> and \<open>frameStoppedLoading\<close> return with the whole
  state as it was: frames, tasks, barriers, timers and the list of emitted page events.
  \<open>frameCommittedNewDocumentNavigation\<close> throws instead, before it changes anything.
\<close>

theorem unknown_frame_handlers:
  assumes "frames s frameId = None"
  shows "frameRequestedNavigation frameId documentId s = s
       \<and> frameUpdatedDocumentIdForNavigation frameId documentId s = s
       \<and> frameCommittedSameDocumentNavigation frameId u s = s
       \<and> frameDetached n frameId s = Some s
       \<and> frameLifecycleEvent n frameId event s = Some s
       \<and> frameStoppedLoading n frameId s = Some s
       \<and> frameCommittedNewDocumentNavigation n debugMode frameId u nm documentId initial s
            = Some (Throws TypeError s)"
  using assms
  by (simp add: frameRequestedNavigation_def frameUpdatedDocumentIdForNavigation_def
      frameCommittedSameDocumentNavigation_def frameDetached_def frameLifecycleEvent_def
      frameStoppedLoading_def frameCommittedNewDocumentNavigation_def)

theorem unknown_frame_handlers_witness:
  "frames page_main ''X'' = None
   \<and> frameRequestedNavigation ''X'' ''D1'' page_main = page_main
   \<and> frameUpdatedDocumentIdForNavigation ''X'' ''D1'' page_main = page_main
   \<and> frameCommittedSameDocumentNavigation ''X'' ''https://a/#x'' page_main = page_main
   \<and> frameDetached 0 ''X'' page_main = Some page_main
   \<and> frameLifecycleEvent 0 ''X'' ''load'' page_main = Some page_main
   \<and> frameStoppedLoading 0 ''X'' page_main = Some page_main
   \<and> frameCommittedNewDocumentNavigation 0 False ''X'' ''https://a/'' [] ''D1'' False page_main
        = Some (Throws TypeError page_main)"
proof -
  have h: "frames page_main ''X'' = None"
    by (simp add: page_main_def model_defs)
  from unknown_frame_handlers[OF h] h show ?thesis by simp
qed

subsection \<open>Waiting for a lifecycle event (C2)\<close>

lemma subtree_unfold:
  "subtree s f = insert f (\<Union>c\<in>set (childFrames (frameStore s f)). subtree s c)"
proof (rule set_eqI, rule iffI)
  fix g
  assume "g \<in> subtree s f"
  then show "g \<in> insert f (\<Union>c\<in>set (childFrames (frameStore s f)). subtree s c)"
  proof (induction rule: subtree.induct)
    case root
    then show ?case by simp
  next
    case (child g c)
    show ?case
    proof (cases "g = f")
      case True
      then have "c \<in> subtree s c" "c \<in> set (childFrames (frameStore s f))"
        using child.hyps(2) by (auto intro: subtree.root)
      then show ?thesis by blast
    next
      case False
      then obtain c' where "c' \<in> set (childFrames (frameStore s f))" "g \<in> subtree s c'"
        using child.IH by auto
      then show ?thesis using child.hyps(2) by (blast intro: subtree.child)
    qed
  qed
next
  fix g
  assume "g \<in> insert f (\<Union>c\<in>set (childFrames (frameStore s f)). subtree s c)"
  then consider "g = f" | c where "c \<in> set (childFrames (frameStore s f))" "g \<in> subtree s c"
    by auto
  then show "g \<in> subtree s f"
  proof cases
    case 1
    then show ?thesis by (simp add: subtree.root)
  next
    case 2
    from 2(2) 2(1) show ?thesis
    proof (induction rule: subtree.induct)
      case root
      then show ?case by (blast intro: subtree.root subtree.child)
    next
      case (child g c)
      then show ?case by (blast intro: subtree.child)
    qed
  qed
qed

lemma check_children_all:
  "(\<And>c. c \<in> set cs \<Longrightarrow> chk c = Some (P c)) \<Longrightarrow> check_children chk cs = Some (\<forall>c\<in>set cs. P c)"
  by (induction cs) (auto split: bool.splits)

lemma fired_in_subtree_unfold:
  "fired_in_subtree s w f =
     (w \<in> set (firedLifecycleEvents (frameStore s f))
      \<and> (\<forall>c\<in>set (childFrames (frameStore s f)). fired_in_subtree s w c))"
  unfolding fired_in_subtree_def by (subst subtree_unfold) auto

lemma checkLifecycleRecursively_subtree:
  "height_le n s f \<Longrightarrow> checkLifecycleRecursively n s w f = Some (fired_in_subtree s w f)"
proof (induction n arbitrary: f)
  case 0
  then show ?case by simp
next
  case (Suc n)
  have kids: "\<And>c. c \<in> set (childFrames (frameStore s f)) \<Longrightarrow>
      checkLifecycleRecursively n s w c = Some (fired_in_subtree s w c)"
    using Suc.prems Suc.IH by (simp add: list_all_iff)
  show ?case
    using check_children_all[of "childFrames (frameStore s f)" "checkLifecycleRecursively n s w"
        "fired_in_subtree s w", OF kids]
    by (subst fired_in_subtree_unfold) simp
qed

lemma subtree_cong: "frameStore s' = frameStore s \<Longrightarrow> subtree s' f = subtree s f"
proof (rule set_eqI, rule iffI)
  fix g assume e: "frameStore s' = frameStore s" and "g \<in> subtree s' f"
  from this(2) show "g \<in> subtree s f"
    by (induction rule: subtree.induct) (auto intro: subtree.intros simp: e)
next
  fix g assume e: "frameStore s' = frameStore s" and "g \<in> subtree s f"
  from this(2) show "g \<in> subtree s' f"
    by (induction rule: subtree.induct) (auto intro: subtree.intros simp: e[symmetric])
qed

lemma fired_in_subtree_cong:
  "frameStore s' = frameStore s \<Longrightarrow> fired_in_subtree s' w f = fired_in_subtree s w f"
  using subtree_cong[of s' s f] by (simp add: fired_in_subtree_def)

lemma height_le_cong:
  "(\<And>g. childFrames (frameStore s' g) = childFrames (frameStore s g)) \<Longrightarrow>
   height_le n s' f = height_le n s f"
  by (induction n arbitrary: f) (simp_all add: list_all_iff)

lemma chain_le_cong:
  "(\<And>g. parentFrame (frameStore s' g) = parentFrame (frameStore s g)) \<Longrightarrow>
   chain_le k s' p = chain_le k s p"
  by (induction k s p rule: chain_le.induct) simp_all

lemma ancestors_cong:
  assumes "\<And>g. parentFrame (frameStore s' g) = parentFrame (frameStore s g)"
  shows "ancestors s' g = ancestors s g"
proof (rule set_eqI, rule iffI)
  fix a assume "a \<in> ancestors s' g"
  then show "a \<in> ancestors s g"
    by (induction rule: ancestors.induct) (auto intro: ancestors.intros simp: assms)
next
  fix a assume "a \<in> ancestors s g"
  then show "a \<in> ancestors s' g"
    by (induction rule: ancestors.induct) (auto intro: ancestors.intros simp: assms[symmetric])
qed

lemma ancestors_step:
  "a \<in> ancestors s q \<Longrightarrow> a = q \<or> (\<exists>p. parentFrame (frameStore s q) = Some p \<and> a \<in> ancestors s p)"
proof (induction rule: ancestors.induct)
  case self
  then show ?case by simp
next
  case (parent a p)
  then show ?case by (auto intro: ancestors.intros)
qed

lemma notified_refl: "notified s s"
  by (simp add: notified_def)

lemma notified_task:
  "notified s s' \<Longrightarrow>
   ft_frame (taskStore s' t) = ft_frame (taskStore s t)
   \<and> (ft_onLifecycle (taskStore s' t) = ft_onLifecycle (taskStore s t)
      \<or> (\<exists>w. ft_onLifecycle (taskStore s t) = Some w
            \<and> fired_in_subtree s (waitUntil w) (ft_frame (taskStore s t))
            \<and> ft_onLifecycle (taskStore s' t) = Some (w\<lparr>lifecycle_promise := Fulfilled ()\<rparr>)))"
  unfolding notified_def by blast

lemma notified_globals:
  "notified s s' \<Longrightarrow>
   frameStore s' = frameStore s \<and> frames s' = frames s \<and> mainFrame s' = mainFrame s \<and> emitted s' = emitted s"
  unfolding notified_def by blast

lemma notifiedI:
  assumes "frameStore s' = frameStore s" "frames s' = frames s" "mainFrame s' = mainFrame s"
    "emitted s' = emitted s"
    and "\<And>t. ft_frame (taskStore s' t) = ft_frame (taskStore s t)
   \<and> (ft_onLifecycle (taskStore s' t) = ft_onLifecycle (taskStore s t)
      \<or> (\<exists>w. ft_onLifecycle (taskStore s t) = Some w
            \<and> fired_in_subtree s (waitUntil w) (ft_frame (taskStore s t))
            \<and> ft_onLifecycle (taskStore s' t) = Some (w\<lparr>lifecycle_promise := Fulfilled ()\<rparr>)))"
  shows "notified s s'"
  unfolding notified_def using assms by blast

lemma notified_trans:
  assumes "notified a b" and "notified b c"
  shows "notified a c"
proof (rule notifiedI)
  note ga = notified_globals[OF assms(1)] and gb = notified_globals[OF assms(2)]
  show "frameStore c = frameStore a" "frames c = frames a" "mainFrame c = mainFrame a"
    "emitted c = emitted a"
    using ga gb by simp_all
  fix t
  note ab = notified_task[OF assms(1), of t] and bc = notified_task[OF assms(2), of t]
  have fr: "ft_frame (taskStore c t) = ft_frame (taskStore a t)" using ab bc by simp
  have fis: "\<And>w. fired_in_subtree b w (ft_frame (taskStore b t))
      = fired_in_subtree a w (ft_frame (taskStore a t))"
    using ga ab fired_in_subtree_cong[of b a] by simp
  consider (same) "ft_onLifecycle (taskStore b t) = ft_onLifecycle (taskStore a t)"
    | (changed) w where "ft_onLifecycle (taskStore a t) = Some w"
        "fired_in_subtree a (waitUntil w) (ft_frame (taskStore a t))"
        "ft_onLifecycle (taskStore b t) = Some (w\<lparr>lifecycle_promise := Fulfilled ()\<rparr>)"
    using ab by blast
  then have "ft_onLifecycle (taskStore c t) = ft_onLifecycle (taskStore a t)
      \<or> (\<exists>w. ft_onLifecycle (taskStore a t) = Some w
            \<and> fired_in_subtree a (waitUntil w) (ft_frame (taskStore a t))
            \<and> ft_onLifecycle (taskStore c t) = Some (w\<lparr>lifecycle_promise := Fulfilled ()\<rparr>))"
  proof cases
    case same
    consider (same2) "ft_onLifecycle (taskStore c t) = ft_onLifecycle (taskStore b t)"
      | (changed2) w where "ft_onLifecycle (taskStore b t) = Some w"
        "fired_in_subtree b (waitUntil w) (ft_frame (taskStore b t))"
        "ft_onLifecycle (taskStore c t) = Some (w\<lparr>lifecycle_promise := Fulfilled ()\<rparr>)"
      using bc by blast
    then show ?thesis
    proof cases
      case same2
      then show ?thesis using same by simp
    next
      case changed2
      then show ?thesis using same fis by simp
    qed
  next
    case changed
    consider (same2) "ft_onLifecycle (taskStore c t) = ft_onLifecycle (taskStore b t)"
      | (changed2) w' where "ft_onLifecycle (taskStore b t) = Some w'"
        "ft_onLifecycle (taskStore c t) = Some (w'\<lparr>lifecycle_promise := Fulfilled ()\<rparr>)"
      using bc by blast
    then show ?thesis
    proof cases
      case same2
      then show ?thesis using changed by simp
    next
      case changed2
      have "w' = w\<lparr>lifecycle_promise := Fulfilled ()\<rparr>"
        using changed(3) changed2(1) by simp
      then have "ft_onLifecycle (taskStore c t) = Some (w\<lparr>lifecycle_promise := Fulfilled ()\<rparr>)"
        using changed2(2) by simp
      then show ?thesis using changed(1,2) by simp
    qed
  qed
  then show "ft_frame (taskStore c t) = ft_frame (taskStore a t)
   \<and> (ft_onLifecycle (taskStore c t) = ft_onLifecycle (taskStore a t)
      \<or> (\<exists>w. ft_onLifecycle (taskStore a t) = Some w
            \<and> fired_in_subtree a (waitUntil w) (ft_frame (taskStore a t))
            \<and> ft_onLifecycle (taskStore c t) = Some (w\<lparr>lifecycle_promise := Fulfilled ()\<rparr>)))"
    using fr by simp
qed

lemma onLifecycle_notified:
  assumes "height_le n s (ft_frame (taskStore s t))"
  shows "\<exists>s'. FrameTask_onLifecycle n t s = Some s' \<and> notified s s' \<and> settled_ok s' t"
proof (cases "ft_onLifecycle (taskStore s t)")
  case None
  then show ?thesis by (simp add: FrameTask_onLifecycle_def notified_refl settled_ok_def)
next
  case (Some w)
  have chk: "checkLifecycleRecursively n s (waitUntil w) (ft_frame (taskStore s t))
     = Some (fired_in_subtree s (waitUntil w) (ft_frame (taskStore s t)))"
    using assms by (rule checkLifecycleRecursively_subtree)
  show ?thesis
  proof (cases "fired_in_subtree s (waitUntil w) (ft_frame (taskStore s t))")
    case False
    then show ?thesis using Some chk
      by (simp add: FrameTask_onLifecycle_def notified_refl settled_ok_def)
  next
    case True
    let ?s' = "update_task t (\<lambda>ft. ft\<lparr>ft_onLifecycle :=
                       Some (w\<lparr>lifecycle_promise := promise_resolve () (lifecycle_promise w)\<rparr>)\<rparr>) s"
    have r: "FrameTask_onLifecycle n t s = Some ?s'"
      using Some chk True by (simp add: FrameTask_onLifecycle_def)
    have pr: "promise_resolve () (lifecycle_promise w) = Fulfilled () \<or>
       promise_resolve () (lifecycle_promise w) = lifecycle_promise w"
      by (cases "lifecycle_promise w") simp_all
    have np: "promise_resolve () (lifecycle_promise w) \<noteq> Pending"
      by (cases "lifecycle_promise w") simp_all
    have n: "notified s ?s'"
    proof (rule notifiedI)
      fix t'
      show "ft_frame (taskStore ?s' t') = ft_frame (taskStore s t')
        \<and> (ft_onLifecycle (taskStore ?s' t') = ft_onLifecycle (taskStore s t')
          \<or> (\<exists>w. ft_onLifecycle (taskStore s t') = Some w
            \<and> fired_in_subtree s (waitUntil w) (ft_frame (taskStore s t'))
            \<and> ft_onLifecycle (taskStore ?s' t') = Some (w\<lparr>lifecycle_promise := Fulfilled ()\<rparr>)))"
      proof (cases "t' = t")
        case False
        then show ?thesis by (simp add: update_task_def)
      next
        case True
        from pr show ?thesis
        proof
          assume "promise_resolve () (lifecycle_promise w) = Fulfilled ()"
          then show ?thesis using True Some \<open>fired_in_subtree s (waitUntil w) (ft_frame (taskStore s t))\<close>
            by (simp add: update_task_def)
        next
          assume "promise_resolve () (lifecycle_promise w) = lifecycle_promise w"
          then show ?thesis using True Some by (simp add: update_task_def)
        qed
      qed
    qed (simp_all add: update_task_def)
    have "settled_ok ?s' t"
      using np by (simp add: settled_ok_def update_task_def)
    then show ?thesis using r n by blast
  qed
qed

lemma settled_ok_notified: "notified s s' \<Longrightarrow> settled_ok s t \<Longrightarrow> settled_ok s' t"
proof -
  assume n: "notified s s'" and ok: "settled_ok s t"
  have fs: "frameStore s' = frameStore s" and fr: "ft_frame (taskStore s' t) = ft_frame (taskStore s t)"
    using notified_globals[OF n] notified_task[OF n, of t] by simp_all
  have "ft_onLifecycle (taskStore s' t) = ft_onLifecycle (taskStore s t)
     \<or> (\<exists>w. ft_onLifecycle (taskStore s t) = Some w
           \<and> ft_onLifecycle (taskStore s' t) = Some (w\<lparr>lifecycle_promise := Fulfilled ()\<rparr>))"
    using notified_task[OF n, of t] by blast
  then show "settled_ok s' t"
    using ok fr fired_in_subtree_cong[OF fs]
    by (auto simp: settled_ok_def split: option.splits)
qed


lemma ancestors_parent:
  "a \<in> ancestors s q' \<Longrightarrow> parentFrame (frameStore s q) = Some q' \<Longrightarrow> a \<in> ancestors s q"
proof (induction rule: ancestors.induct)
  case self
  then show ?case by (auto intro: ancestors.intros)
next
  case (parent a p)
  then show ?case by (auto intro: ancestors.intros)
qed

lemma tasks_notified:
  assumes "\<And>t. t \<in> set ts \<Longrightarrow> height_le n s (ft_frame (taskStore s t))"
  shows "\<exists>s'. fold_option (FrameTask_onLifecycle n) ts s = Some s' \<and> notified s s'
            \<and> (\<forall>t\<in>set ts. settled_ok s' t)"
  using assms
proof (induction ts arbitrary: s)
  case Nil
  then show ?case by (simp add: notified_refl)
next
  case (Cons t ts)
  have "height_le n s (ft_frame (taskStore s t))" using Cons.prems by simp
  from onLifecycle_notified[OF this] obtain s1 where
    1: "FrameTask_onLifecycle n t s = Some s1" "notified s s1" "settled_ok s1 t" by blast
  have fs: "frameStore s1 = frameStore s" using notified_globals[OF 1(2)] by simp
  have h1: "height_le n s1 (ft_frame (taskStore s1 t'))" if "t' \<in> set ts" for t'
    using Cons.prems[of t'] that height_le_cong[of s1 s n] fs notified_task[OF 1(2), of t'] by simp
  from Cons.IH[OF h1] obtain s' where
    2: "fold_option (FrameTask_onLifecycle n) ts s1 = Some s'" "notified s1 s'"
       "\<forall>t\<in>set ts. settled_ok s' t" by blast
  have "settled_ok s' t" using settled_ok_notified[OF 2(2) 1(3)] .
  moreover have "notified s s'" using notified_trans[OF 1(2) 2(2)] .
  ultimately show ?case using 1(1) 2(1,3) by simp
qed

lemma walk_notified:
  assumes "\<And>q a t. p = Some q \<Longrightarrow> a \<in> ancestors s q \<Longrightarrow> t \<in> set (frameTasks (frameStore s a))
             \<Longrightarrow> height_le n s (ft_frame (taskStore s t))"
    and "chain_le k s p"
  shows "\<exists>s'. notifyLifecycle_from n k p s = Some s' \<and> notified s s'
            \<and> (\<forall>q a t. p = Some q \<longrightarrow> a \<in> ancestors s q \<longrightarrow> t \<in> set (frameTasks (frameStore s a))
                   \<longrightarrow> settled_ok s' t)"
  using assms
proof (induction k arbitrary: p s)
  case 0
  then show ?case by (cases p) (simp_all add: notified_refl)
next
  case (Suc k)
  show ?case
  proof (cases p)
    case None
    then show ?thesis by (simp add: notified_refl)
  next
    case (Some q)
    have hq: "\<And>t. t \<in> set (frameTasks (frameStore s q)) \<Longrightarrow> height_le n s (ft_frame (taskStore s t))"
      using Suc.prems(1)[OF Some ancestors.self] by simp
    from tasks_notified[OF hq, of "frameTasks (frameStore s q)"] obtain s1 where
      1: "fold_option (FrameTask_onLifecycle n) (frameTasks (frameStore s q)) s = Some s1"
         "notified s s1" "\<forall>t\<in>set (frameTasks (frameStore s q)). settled_ok s1 t" by blast
    have fs: "frameStore s1 = frameStore s" using notified_globals[OF 1(2)] by simp
    have anc: "\<And>g. ancestors s1 g = ancestors s g" using ancestors_cong[of s1 s] fs by simp
    have c1: "chain_le k s1 (parentFrame (frameStore s1 q))"
      using Suc.prems(2) Some chain_le_cong[of s1 s k] fs by simp
    have "\<exists>s'. notifyLifecycle_from n k (parentFrame (frameStore s1 q)) s1 = Some s' \<and> notified s1 s'
            \<and> (\<forall>q' a t. parentFrame (frameStore s1 q) = Some q' \<longrightarrow> a \<in> ancestors s1 q'
                   \<longrightarrow> t \<in> set (frameTasks (frameStore s1 a)) \<longrightarrow> settled_ok s' t)"
    proof (rule Suc.IH)
      fix q' a t
      assume that: "parentFrame (frameStore s1 q) = Some q'" "a \<in> ancestors s1 q'"
         "t \<in> set (frameTasks (frameStore s1 a))"
      have "a \<in> ancestors s q" using that(1,2) fs anc ancestors_parent[of a s q' q] by simp
      then have "height_le n s (ft_frame (taskStore s t))"
        using Suc.prems(1)[OF Some, of a t] that(3) fs by simp
      then show "height_le n s1 (ft_frame (taskStore s1 t))"
        using height_le_cong[of s1 s n] fs notified_task[OF 1(2), of t] by simp
    next
      show "chain_le k s1 (parentFrame (frameStore s1 q))" by (rule c1)
    qed
    then obtain s' where
      2: "notifyLifecycle_from n k (parentFrame (frameStore s1 q)) s1 = Some s'" "notified s1 s'"
         "\<forall>q' a t. parentFrame (frameStore s1 q) = Some q' \<longrightarrow> a \<in> ancestors s1 q'
             \<longrightarrow> t \<in> set (frameTasks (frameStore s1 a)) \<longrightarrow> settled_ok s' t" by blast
    have r: "notifyLifecycle_from n (Suc k) p s = Some s'"
      using Some 1(1) 2(1) by simp
    have nt: "notified s s'" using notified_trans[OF 1(2) 2(2)] .
    have "settled_ok s' t" if a: "a \<in> ancestors s q" and t: "t \<in> set (frameTasks (frameStore s a))" for a t
    proof -
      from ancestors_step[OF a] show ?thesis
      proof
        assume "a = q"
        then have "settled_ok s1 t" using 1(3) t by simp
        then show ?thesis using settled_ok_notified[OF 2(2)] by simp
      next
        assume "\<exists>p. parentFrame (frameStore s q) = Some p \<and> a \<in> ancestors s p"
        then obtain q' where "parentFrame (frameStore s q) = Some q'" "a \<in> ancestors s q'" by blast
        then show ?thesis using 2(3) t fs anc by simp
      qed
    qed
    then show ?thesis using r nt Some by blast
  qed
qed

lemma frameLifecycleEvent_notifies:
  assumes fr: "frames s frameId = Some g"
    and nf: "event \<notin> set (firedLifecycleEvents (frameStore s g))"
    and hs: "\<And>b u. b \<in> ancestors s g \<Longrightarrow> u \<in> set (frameTasks (frameStore s b))
               \<Longrightarrow> height_le n s (ft_frame (taskStore s u))"
    and ch: "chain_le n s (Some g)"
    and an: "a \<in> ancestors s g" and tt: "t \<in> set (frameTasks (frameStore s a))"
    and tf: "ft_frame (taskStore s t) = a"
    and wt: "ft_onLifecycle (taskStore s t) = Some \<lparr>waitUntil = E, lifecycle_promise = Pending\<rparr>"
  shows "\<exists>s'. frameLifecycleEvent n frameId event s = Some s'
     \<and> frameStore s' = (frameStore s)(g := (frameStore s g)
           \<lparr>firedLifecycleEvents := firedLifecycleEvents (frameStore s g) @ [event]\<rparr>)
     \<and> ft_onLifecycle (taskStore s' t)
         = Some \<lparr>waitUntil = E,
                 lifecycle_promise = (if fired_in_subtree s' E a then Fulfilled () else Pending)\<rparr>"
proof -
  let ?s1 = "update_frame g (\<lambda>fr. fr\<lparr>firedLifecycleEvents := set_add event (firedLifecycleEvents fr)\<rparr>) s"
  have fs1: "frameStore ?s1 = (frameStore s)(g := (frameStore s g)
           \<lparr>firedLifecycleEvents := firedLifecycleEvents (frameStore s g) @ [event]\<rparr>)"
    using nf by (simp add: update_frame_def set_add_def)
  have kids: "\<And>f. childFrames (frameStore ?s1 f) = childFrames (frameStore s f)"
    and pars: "\<And>f. parentFrame (frameStore ?s1 f) = parentFrame (frameStore s f)"
    and tasks: "\<And>f. frameTasks (frameStore ?s1 f) = frameTasks (frameStore s f)"
    and ts1: "taskStore ?s1 = taskStore s"
    by (simp_all add: update_frame_def)
  have anc1: "\<And>q. ancestors ?s1 q = ancestors s q" using ancestors_cong[of ?s1 s, OF pars] by simp
  have c1: "chain_le n ?s1 (Some g)" using ch chain_le_cong[of ?s1 s n, OF pars] by simp
  have a1: "a \<in> ancestors ?s1 g" using an anc1 by simp
  have "\<exists>s2. notifyLifecycle_from n n (Some g) ?s1 = Some s2 \<and> notified ?s1 s2
            \<and> (\<forall>q a t. Some g = Some q \<longrightarrow> a \<in> ancestors ?s1 q
                   \<longrightarrow> t \<in> set (frameTasks (frameStore ?s1 a)) \<longrightarrow> settled_ok s2 t)"
  proof (rule walk_notified)
    fix q b u
    assume that: "Some g = Some q" "b \<in> ancestors ?s1 q" "u \<in> set (frameTasks (frameStore ?s1 b))"
    show "height_le n ?s1 (ft_frame (taskStore ?s1 u))"
      using that hs[of b u] anc1 tasks[of b] ts1 height_le_cong[of ?s1 s n, OF kids] by simp
  next
    show "chain_le n ?s1 (Some g)" by (rule c1)
  qed
  then obtain s2 where
    2: "notifyLifecycle_from n n (Some g) ?s1 = Some s2" "notified ?s1 s2"
       "\<forall>q a t. Some g = Some q \<longrightarrow> a \<in> ancestors ?s1 q \<longrightarrow> t \<in> set (frameTasks (frameStore ?s1 a))
             \<longrightarrow> settled_ok s2 t" by blast
  have tt1: "t \<in> set (frameTasks (frameStore ?s1 a))" using tt tasks[of a] by simp
  have ok: "settled_ok s2 t" using 2(3) a1 tt1 by blast
  have fs2: "frameStore s2 = frameStore ?s1" using notified_globals[OF 2(2)] by simp
  define s3 where "s3 = (let sa = (if Some g = mainFrame s2 \<and> event = ''load'' then emit Load s2 else s2)
     in (if Some g = mainFrame sa \<and> event = ''domcontentloaded'' then emit DOMContentLoaded sa else sa))"
  have r: "frameLifecycleEvent n frameId event s = Some s3"
    using fr nf 2(1) by (simp add: frameLifecycleEvent_def notifyLifecycle_def s3_def Let_def)
  have fs3: "frameStore s3 = frameStore s2" and ts3: "taskStore s3 = taskStore s2"
    by (simp_all add: s3_def Let_def emit_def)
  have p3: "fired_in_subtree s3 E a = fired_in_subtree ?s1 E a"
    using fired_in_subtree_cong[of s3 ?s1 E a] fs3 fs2 by simp
  have p2: "fired_in_subtree s2 E a = fired_in_subtree ?s1 E a"
    using fired_in_subtree_cong[of s2 ?s1 E a] fs2 by simp
  note nt = notified_task[OF 2(2), of t]
  have tf2: "ft_frame (taskStore s2 t) = a" using nt tf ts1 by simp
  have w1: "ft_onLifecycle (taskStore ?s1 t) = Some \<lparr>waitUntil = E, lifecycle_promise = Pending\<rparr>"
    using wt ts1 by simp
  have "ft_onLifecycle (taskStore s2 t)
         = Some \<lparr>waitUntil = E,
                 lifecycle_promise = (if fired_in_subtree ?s1 E a then Fulfilled () else Pending)\<rparr>"
  proof (cases "ft_onLifecycle (taskStore s2 t) = ft_onLifecycle (taskStore ?s1 t)")
    case True
    then have "\<not> fired_in_subtree s2 E a"
      using ok w1 tf2 by (simp add: settled_ok_def)
    then show ?thesis using True w1 p2 by simp
  next
    case False
    then obtain w where w: "ft_onLifecycle (taskStore ?s1 t) = Some w"
        "fired_in_subtree ?s1 (waitUntil w) (ft_frame (taskStore ?s1 t))"
        "ft_onLifecycle (taskStore s2 t) = Some (w\<lparr>lifecycle_promise := Fulfilled ()\<rparr>)"
      using nt by blast
    have "w = \<lparr>waitUntil = E, lifecycle_promise = Pending\<rparr>" using w(1) w1 by simp
    then show ?thesis using w(2,3) tf ts1 by simp
  qed
  then show ?thesis using r fs1 fs2 fs3 ts3 p3 by simp
qed

text \<open>Detaching frames changes no frame task.\<close>

lemma fold_update_rerun_taskStore:
  "taskStore (fold (\<lambda>r. update_rerun r g) rs s) = taskStore s"
  by (induction rs arbitrary: s) (simp_all add: update_rerun_def)

lemma terminate_all_taskStore: "taskStore (terminate_all f s) = taskStore s"
  by (simp add: terminate_all_def fold_update_rerun_taskStore)

lemma Frame_onDetached_taskStore: "taskStore (Frame_onDetached f s) = taskStore s"
  by (simp add: Frame_onDetached_alt Let_def update_frame_def terminate_all_taskStore
      split: option.splits)

lemma removeFramesRecursively_taskStore:
  "removeFramesRecursively n f s = Some s' \<Longrightarrow> taskStore s' = taskStore s"
  by (rule removeFramesRecursively_rel[where R = "\<lambda>s s'. taskStore s' = taskStore s"])
     (simp_all add: emit_def Frame_onDetached_taskStore)

lemma frameDetached_taskStore:
  "frameDetached n frameId s = Some s' \<Longrightarrow> taskStore s' = taskStore s"
  by (auto simp: frameDetached_def removeFramesRecursively_taskStore split: option.splits)

text \<open>
  C2, amended. \<open>waitForLifecycle\<close> treats \<open>networkidle0\<close> as \<open>networkidle\<close> and throws for a
  value outside domcontentloaded, load, networkidle. For a valid value \<open>E\<close>, with the frame
  tree below the task's frame within the depth bound, the check it runs returns whether
  every frame of the subtree rooted at the task's frame has \<open>E\<close> among its fired events; if
  so the promise returned is already resolved, and if not (and no lifecycle waiter is
  registered yet) a waiter with a pending promise is registered. From then on the promise
  is resolved by lifecycle notifications only: an \<open>onLifecycle\<close> notification resolves it
  exactly if the subtree predicate holds then, and after \<open>frameLifecycleEvent\<close> for a new
  event on a frame below the task's frame it is resolved exactly if the predicate holds in
  the new state. Detaching frames notifies no task: it leaves every waiter as it was.
\<close>

theorem waitForLifecycle_resolution:
  assumes "height_le n s (ft_frame (taskStore s t))"
  shows "waitForLifecycle n ''networkidle0'' t s = waitForLifecycle n ''networkidle'' t s
    \<and> (E \<noteq> ''networkidle0'' \<and> E \<notin> {''domcontentloaded'', ''load'', ''networkidle''}
        \<longrightarrow> waitForLifecycle n E t s = Some (Inl (Error (''Unsupported waitUntil option '' @ E))))
    \<and> (E \<in> {''domcontentloaded'', ''load'', ''networkidle''}
        \<longrightarrow> checkLifecycleRecursively n s E (ft_frame (taskStore s t))
              = Some (\<forall>g\<in>subtree s (ft_frame (taskStore s t)). E \<in> set (firedLifecycleEvents (frameStore s g)))
          \<and> (fired_in_subtree s E (ft_frame (taskStore s t))
                \<longrightarrow> waitForLifecycle n E t s = Some (Inr (s, Fulfilled ())))
          \<and> (\<not> fired_in_subtree s E (ft_frame (taskStore s t)) \<and> ft_onLifecycle (taskStore s t) = None
                \<longrightarrow> waitForLifecycle n E t s
                    = Some (Inr (update_task t (\<lambda>ft. ft\<lparr>ft_onLifecycle :=
                                      Some \<lparr>waitUntil = E, lifecycle_promise = Pending\<rparr>\<rparr>) s, Pending))))
    \<and> (ft_onLifecycle (taskStore s t) = Some \<lparr>waitUntil = E, lifecycle_promise = Pending\<rparr>
        \<longrightarrow> FrameTask_onLifecycle n t s
            = Some (if fired_in_subtree s E (ft_frame (taskStore s t))
                    then update_task t (\<lambda>ft. ft\<lparr>ft_onLifecycle :=
                           Some \<lparr>waitUntil = E, lifecycle_promise = Fulfilled ()\<rparr>\<rparr>) s
                    else s))
    \<and> (ft_onLifecycle (taskStore s t) = Some \<lparr>waitUntil = E, lifecycle_promise = Pending\<rparr>
        \<and> t \<in> set (frameTasks (frameStore s (ft_frame (taskStore s t))))
        \<and> frames s frameId = Some g \<and> ft_frame (taskStore s t) \<in> ancestors s g
        \<and> event \<notin> set (firedLifecycleEvents (frameStore s g))
        \<and> (\<forall>b\<in>ancestors s g. \<forall>u\<in>set (frameTasks (frameStore s b)).
               height_le n s (ft_frame (taskStore s u)))
        \<and> chain_le n s (Some g)
        \<longrightarrow> (\<exists>s'. frameLifecycleEvent n frameId event s = Some s'
              \<and> frameStore s' = (frameStore s)(g := (frameStore s g)
                    \<lparr>firedLifecycleEvents := firedLifecycleEvents (frameStore s g) @ [event]\<rparr>)
              \<and> ft_onLifecycle (taskStore s' t)
                  = Some \<lparr>waitUntil = E,
                          lifecycle_promise = (if fired_in_subtree s' E (ft_frame (taskStore s t))
                                               then Fulfilled () else Pending)\<rparr>))
    \<and> (frameDetached n detachedId s = Some sd \<longrightarrow> taskStore sd = taskStore s)"
proof -
  let ?f = "ft_frame (taskStore s t)"
  have chk: "\<And>w. checkLifecycleRecursively n s w ?f = Some (fired_in_subtree s w ?f)"
    using assms by (rule checkLifecycleRecursively_subtree)
  have k: "kLifecycleEvents = {''domcontentloaded'', ''load'', ''networkidle''}"
    by (simp add: kLifecycleEvents_def)
  have 1: "waitForLifecycle n ''networkidle0'' t s = waitForLifecycle n ''networkidle'' t s"
    by (simp add: waitForLifecycle_def)
  have 2: "E \<noteq> ''networkidle0'' \<and> E \<notin> {''domcontentloaded'', ''load'', ''networkidle''}
        \<Longrightarrow> waitForLifecycle n E t s = Some (Inl (Error (''Unsupported waitUntil option '' @ E)))"
    unfolding waitForLifecycle_def k by (simp add: Let_def)
  have valid: "E \<noteq> ''networkidle0''" if "E \<in> {''domcontentloaded'', ''load'', ''networkidle''}"
    using that by auto
  have 3: "checkLifecycleRecursively n s E ?f
              = Some (\<forall>g\<in>subtree s ?f. E \<in> set (firedLifecycleEvents (frameStore s g)))"
    using chk[of E] by (simp add: fired_in_subtree_def)
  have 4: "waitForLifecycle n E t s = Some (Inr (s, Fulfilled ()))"
    if "E \<in> {''domcontentloaded'', ''load'', ''networkidle''}" "fired_in_subtree s E ?f"
    unfolding waitForLifecycle_def k using that valid[OF that(1)] chk[of E] by (simp add: Let_def)
  have 5: "waitForLifecycle n E t s
                    = Some (Inr (update_task t (\<lambda>ft. ft\<lparr>ft_onLifecycle :=
                                      Some \<lparr>waitUntil = E, lifecycle_promise = Pending\<rparr>\<rparr>) s, Pending))"
    if "E \<in> {''domcontentloaded'', ''load'', ''networkidle''}" "\<not> fired_in_subtree s E ?f"
       "ft_onLifecycle (taskStore s t) = None"
    unfolding waitForLifecycle_def k using that valid[OF that(1)] chk[of E] by (simp add: Let_def)
  have 6: "FrameTask_onLifecycle n t s
            = Some (if fired_in_subtree s E ?f
                    then update_task t (\<lambda>ft. ft\<lparr>ft_onLifecycle :=
                           Some \<lparr>waitUntil = E, lifecycle_promise = Fulfilled ()\<rparr>\<rparr>) s
                    else s)"
    if "ft_onLifecycle (taskStore s t) = Some \<lparr>waitUntil = E, lifecycle_promise = Pending\<rparr>"
    using that chk[of E] by (simp add: FrameTask_onLifecycle_def)
  have 7: "\<exists>s'. frameLifecycleEvent n frameId event s = Some s'
              \<and> frameStore s' = (frameStore s)(g := (frameStore s g)
                    \<lparr>firedLifecycleEvents := firedLifecycleEvents (frameStore s g) @ [event]\<rparr>)
              \<and> ft_onLifecycle (taskStore s' t)
                  = Some \<lparr>waitUntil = E,
                          lifecycle_promise = (if fired_in_subtree s' E ?f then Fulfilled () else Pending)\<rparr>"
    if h: "ft_onLifecycle (taskStore s t) = Some \<lparr>waitUntil = E, lifecycle_promise = Pending\<rparr>
        \<and> t \<in> set (frameTasks (frameStore s ?f))
        \<and> frames s frameId = Some g \<and> ?f \<in> ancestors s g
        \<and> event \<notin> set (firedLifecycleEvents (frameStore s g))
        \<and> (\<forall>b\<in>ancestors s g. \<forall>u\<in>set (frameTasks (frameStore s b)).
               height_le n s (ft_frame (taskStore s u)))
        \<and> chain_le n s (Some g)"
    by (rule frameLifecycleEvent_notifies[where a = ?f]) (use h in simp_all)
  have 8: "frameDetached n detachedId s = Some sd \<Longrightarrow> taskStore sd = taskStore s"
    by (rule frameDetached_taskStore)
  show ?thesis
    using 1 2 3 4 5 6 7 8 by blast
qed

lemmas lifecycle_defs = frameLifecycleEvent_def notifyLifecycle_def FrameTask_onLifecycle_def
  waitForLifecycle_def kLifecycleEvents_def new_FrameTask_def update_task_def or_else_def

lemma page_main_frames:
  "frames page_main = [''F'' \<mapsto> 0] \<and> mainFrame page_main = Some 0 \<and> nextRef page_main = 5
   \<and> childFrames (frameStore page_main 0) = [] \<and> parentFrame (frameStore page_main 0) = None
   \<and> frameTasks (frameStore page_main 0) = [] \<and> firedLifecycleEvents (frameStore page_main 0) = []
   \<and> inflightRequests (frameStore page_main 0) = [] \<and> networkIdleTimer (frameStore page_main 0) = None
   \<and> fid (frameStore page_main 0) = ''F''
   \<and> emitted page_main = []"
  by (simp add: page_main_def model_defs)

lemma page_child_frames:
  "frames page_child ''F'' = Some 0 \<and> frames page_child ''C'' = Some 5 \<and> mainFrame page_child = Some 0
   \<and> nextRef page_child = 10
   \<and> childFrames (frameStore page_child 0) = [5] \<and> childFrames (frameStore page_child 5) = []
   \<and> parentFrame (frameStore page_child 0) = None \<and> parentFrame (frameStore page_child 5) = Some 0
   \<and> frameTasks (frameStore page_child 0) = [] \<and> frameTasks (frameStore page_child 5) = []
   \<and> firedLifecycleEvents (frameStore page_child 0) = [] \<and> firedLifecycleEvents (frameStore page_child 5) = []
   \<and> emitted page_child = [FrameAttached 5]"
  using page_main_frames
  by (simp add: page_child_def frameAttached_def new_Frame_def Frame_setContext_def update_data_def
      update_frame_def state_of_def emit_def set_add_def Let_def)

lemma page_loaded_eval:
  "frameLifecycleEvent (Suc (Suc 0)) ''F'' ''load'' page_child = Some page_loaded
   \<and> frames page_loaded = frames page_child \<and> nextRef page_loaded = 10
   \<and> childFrames (frameStore page_loaded 0) = [5] \<and> childFrames (frameStore page_loaded 5) = []
   \<and> parentFrame (frameStore page_loaded 0) = None \<and> parentFrame (frameStore page_loaded 5) = Some 0
   \<and> frameTasks (frameStore page_loaded 0) = [] \<and> frameTasks (frameStore page_loaded 5) = []
   \<and> firedLifecycleEvents (frameStore page_loaded 0) = [''load'']
   \<and> firedLifecycleEvents (frameStore page_loaded 5) = []
   \<and> emitted page_loaded = [FrameAttached 5, Load]"
  using page_child_frames
  by (simp add: page_loaded_def lifecycle_defs update_frame_def set_add_def emit_def)

lemma page_wait_eval:
  "waitForLifecycle (Suc (Suc 0)) ''load'' 10 page_task = Some (Inr (page_wait, Pending))
   \<and> frames page_wait ''C'' = Some 5
   \<and> childFrames (frameStore page_wait 0) = [5] \<and> childFrames (frameStore page_wait 5) = []
   \<and> parentFrame (frameStore page_wait 0) = None \<and> parentFrame (frameStore page_wait 5) = Some 0
   \<and> frameTasks (frameStore page_wait 0) = [10] \<and> frameTasks (frameStore page_wait 5) = []
   \<and> firedLifecycleEvents (frameStore page_wait 0) = [''load'']
   \<and> firedLifecycleEvents (frameStore page_wait 5) = []
   \<and> ft_frame (taskStore page_wait 10) = 0
   \<and> ft_onLifecycle (taskStore page_wait 10) = Some \<lparr>waitUntil = ''load'', lifecycle_promise = Pending\<rparr>"
  using page_loaded_eval page_child_frames
  by (simp add: page_wait_def page_task_def lifecycle_defs update_frame_def set_add_def)


lemma page_wait_ancestors:
  "b \<in> ancestors page_wait 5 \<Longrightarrow> b = 5 \<or> b = 0"
proof -
  assume "b \<in> ancestors page_wait 5"
  from ancestors_step[OF this] show ?thesis
  proof
    assume "b = 5" then show ?thesis by simp
  next
    assume "\<exists>p. parentFrame (frameStore page_wait 5) = Some p \<and> b \<in> ancestors page_wait p"
    then have "b \<in> ancestors page_wait 0" using page_wait_eval by simp
    from ancestors_step[OF this] show ?thesis using page_wait_eval by simp
  qed
qed

theorem waitForLifecycle_resolution_witness:
  "height_le (Suc (Suc 0)) page_wait (ft_frame (taskStore page_wait 10))
   \<and> waitForLifecycle (Suc (Suc 0)) ''networkidle0'' 10 page_wait
       = waitForLifecycle (Suc (Suc 0)) ''networkidle'' 10 page_wait
   \<and> waitForLifecycle (Suc (Suc 0)) ''networkidle2'' 10 page_wait
       = Some (Inl (Error ''Unsupported waitUntil option networkidle2''))
   \<and> ft_onLifecycle (taskStore page_wait 10) = Some \<lparr>waitUntil = ''load'', lifecycle_promise = Pending\<rparr>
   \<and> \<not> fired_in_subtree page_wait ''load'' 0
   \<and> FrameTask_onLifecycle (Suc (Suc 0)) 10 page_wait = Some page_wait
   \<and> frames page_wait ''C'' = Some 5
   \<and> 0 \<in> ancestors page_wait 5
   \<and> ''load'' \<notin> set (firedLifecycleEvents (frameStore page_wait 5))
   \<and> chain_le (Suc (Suc 0)) page_wait (Some 5)
   \<and> (\<exists>s'. frameLifecycleEvent (Suc (Suc 0)) ''C'' ''load'' page_wait = Some s'
         \<and> fired_in_subtree s' ''load'' 0
         \<and> ft_onLifecycle (taskStore s' 10) = Some \<lparr>waitUntil = ''load'', lifecycle_promise = Fulfilled ()\<rparr>)
   \<and> checkLifecycleRecursively (Suc (Suc 0)) page_wait ''load'' 0 = Some False
   \<and> (\<exists>sd. frameDetached (Suc (Suc 0)) ''C'' page_wait = Some sd
         \<and> ft_onLifecycle (taskStore sd 10) = Some \<lparr>waitUntil = ''load'', lifecycle_promise = Pending\<rparr>)"
proof -
  note ev = page_wait_eval
  have tf: "ft_frame (taskStore page_wait 10) = 0" using ev by simp
  have h: "height_le (Suc (Suc 0)) page_wait (ft_frame (taskStore page_wait 10))"
    using ev by simp
  have nf: "\<not> fired_in_subtree page_wait ''load'' 0"
    using ev fired_in_subtree_unfold[of page_wait "''load''" 0] fired_in_subtree_unfold[of page_wait "''load''" 5]
    by simp
  have an: "0 \<in> ancestors page_wait 5"
    by (rule ancestors.parent[OF ancestors.self]) (use ev in simp)
  have hs: "\<forall>b\<in>ancestors page_wait 5. \<forall>u\<in>set (frameTasks (frameStore page_wait b)).
               height_le (Suc (Suc 0)) page_wait (ft_frame (taskStore page_wait u))"
  proof (intro ballI)
    fix b u
    assume b: "b \<in> ancestors page_wait 5" and u: "u \<in> set (frameTasks (frameStore page_wait b))"
    from page_wait_ancestors[OF b] show "height_le (Suc (Suc 0)) page_wait (ft_frame (taskStore page_wait u))"
    proof
      assume "b = 5" then show ?thesis using u ev by simp
    next
      assume "b = 0"
      then have "u = 10" using u ev by simp
      then show ?thesis using ev by simp
    qed
  qed
  have ch: "chain_le (Suc (Suc 0)) page_wait (Some 5)" using ev by simp
  note res = waitForLifecycle_resolution[OF h, where E = "''load''" and frameId = "''C''" and g = 5
      and event = "''load''"]
  note res2 = waitForLifecycle_resolution[OF h, where E = "''networkidle2''"]
  have inv: "waitForLifecycle (Suc (Suc 0)) ''networkidle2'' 10 page_wait
       = Some (Inl (Error ''Unsupported waitUntil option networkidle2''))"
    using res2[THEN conjunct2, THEN conjunct1] by simp
  have al: "waitForLifecycle (Suc (Suc 0)) ''networkidle0'' 10 page_wait
       = waitForLifecycle (Suc (Suc 0)) ''networkidle'' 10 page_wait"
    using res[THEN conjunct1] .
  have wt: "ft_onLifecycle (taskStore page_wait 10) = Some \<lparr>waitUntil = ''load'', lifecycle_promise = Pending\<rparr>"
    using ev by simp
  have on: "FrameTask_onLifecycle (Suc (Suc 0)) 10 page_wait = Some page_wait"
    using res[THEN conjunct2, THEN conjunct2, THEN conjunct2, THEN conjunct1, THEN mp, OF wt] nf tf
    by simp
  have hyp: "ft_onLifecycle (taskStore page_wait 10) = Some \<lparr>waitUntil = ''load'', lifecycle_promise = Pending\<rparr>
        \<and> 10 \<in> set (frameTasks (frameStore page_wait (ft_frame (taskStore page_wait 10))))
        \<and> frames page_wait ''C'' = Some 5 \<and> ft_frame (taskStore page_wait 10) \<in> ancestors page_wait 5
        \<and> ''load'' \<notin> set (firedLifecycleEvents (frameStore page_wait 5))
        \<and> (\<forall>b\<in>ancestors page_wait 5. \<forall>u\<in>set (frameTasks (frameStore page_wait b)).
               height_le (Suc (Suc 0)) page_wait (ft_frame (taskStore page_wait u)))
        \<and> chain_le (Suc (Suc 0)) page_wait (Some 5)"
    using wt an hs ch tf ev by simp
  from res[THEN conjunct2, THEN conjunct2, THEN conjunct2, THEN conjunct2, THEN conjunct1, THEN mp, OF hyp]
  obtain s' where s': "frameLifecycleEvent (Suc (Suc 0)) ''C'' ''load'' page_wait = Some s'"
    "frameStore s' = (frameStore page_wait)(5 := (frameStore page_wait 5)
                    \<lparr>firedLifecycleEvents := firedLifecycleEvents (frameStore page_wait 5) @ [''load'']\<rparr>)"
    "ft_onLifecycle (taskStore s' 10)
                  = Some \<lparr>waitUntil = ''load'',
                          lifecycle_promise = (if fired_in_subtree s' ''load'' (ft_frame (taskStore page_wait 10))
                                               then Fulfilled () else Pending)\<rparr>"
    by blast
  have fi: "fired_in_subtree s' ''load'' 0"
    using ev s'(2) fired_in_subtree_unfold[of s' "''load''" 0] fired_in_subtree_unfold[of s' "''load''" 5]
    by simp
  have fin: "ft_onLifecycle (taskStore s' 10) = Some \<lparr>waitUntil = ''load'', lifecycle_promise = Fulfilled ()\<rparr>"
    using s'(3) fi tf by simp
  have ex: "\<exists>s'. frameLifecycleEvent (Suc (Suc 0)) ''C'' ''load'' page_wait = Some s'
         \<and> fired_in_subtree s' ''load'' 0
         \<and> ft_onLifecycle (taskStore s' 10) = Some \<lparr>waitUntil = ''load'', lifecycle_promise = Fulfilled ()\<rparr>"
    using s'(1) fi fin by blast
  have c: "frames page_wait ''C'' = Some 5" "''load'' \<notin> set (firedLifecycleEvents (frameStore page_wait 5))"
    using ev by simp_all
  have vl: "''load'' \<in> {''domcontentloaded'', ''load'', ''networkidle''}" by simp
  have ck: "checkLifecycleRecursively (Suc (Suc 0)) page_wait ''load'' 0 = Some False"
    using res[THEN conjunct2, THEN conjunct2, THEN conjunct1, THEN mp, OF vl, THEN conjunct1] nf tf
    by (simp add: fired_in_subtree_def)
  have hd: "height_le (Suc (Suc 0)) page_wait 5" using ev by simp
  from removeFramesRecursively_total[OF hd] obtain sd where
    "removeFramesRecursively (Suc (Suc 0)) 5 page_wait = Some sd" by blast
  then have fd: "frameDetached (Suc (Suc 0)) ''C'' page_wait = Some sd"
    using c(1) by (simp add: frameDetached_def)
  note det = waitForLifecycle_resolution[OF h, where detachedId = "''C''" and sd = sd,
      THEN conjunct2, THEN conjunct2, THEN conjunct2, THEN conjunct2, THEN conjunct2, THEN mp, OF fd]
  have dx: "\<exists>sd. frameDetached (Suc (Suc 0)) ''C'' page_wait = Some sd
         \<and> ft_onLifecycle (taskStore sd 10) = Some \<lparr>waitUntil = ''load'', lifecycle_promise = Pending\<rparr>"
    using fd det wt by auto
  show ?thesis
    using h al inv wt nf on c an ch ex ck dx by blast
qed

lemma page_main_slots:
  "rerunnableTasks (contextData (frameStore page_main 0) main) = []
   \<and> rerunnableTasks (contextData (frameStore page_main 0) utility) = []"
  by (simp add: page_main_def model_defs)

lemma page_child_slots:
  "rerunnableTasks (contextData (frameStore page_child 5) main) = []
   \<and> rerunnableTasks (contextData (frameStore page_child 5) utility) = []
   \<and> fid (frameStore page_child 5) = ''C'' \<and> fid (frameStore page_child 0) = ''F''"
  using page_main_frames
  by (simp add: page_child_def frameAttached_def new_Frame_def Frame_setContext_def update_data_def
      update_frame_def state_of_def emit_def set_add_def Let_def)

lemma page_wait_slots:
  "rerunnableTasks (contextData (frameStore page_wait 5) main) = []
   \<and> rerunnableTasks (contextData (frameStore page_wait 5) utility) = []
   \<and> fid (frameStore page_wait 5) = ''C''"
  using page_loaded_eval page_child_frames page_child_slots
  by (simp add: page_wait_def page_task_def page_loaded_def lifecycle_defs update_frame_def set_add_def emit_def Let_def)

lemma page_wait_detached_eval:
  "frameDetached (Suc (Suc 0)) ''C'' page_wait = Some page_wait_detached
   \<and> childFrames (frameStore page_wait_detached 0) = []
   \<and> firedLifecycleEvents (frameStore page_wait_detached 0) = [''load'']
   \<and> frameTasks (frameStore page_wait_detached 0) = [10]
   \<and> frames page_wait_detached ''C'' = None
   \<and> taskStore page_wait_detached = taskStore page_wait"
  using page_wait_eval page_wait_slots
  by (simp add: page_wait_detached_def or_else_def frameDetached_def Frame_onDetached_def
      update_frame_def update_rerun_def emit_def set_delete_def Let_def)

text \<open>
  C2, as stated, fails: the task on the main frame waits for \<open>load\<close>, which has fired on the
  main frame and not on its child. When the child is detached, every frame of the subtree
  has \<open>load\<close> among its fired events and the check returns true, yet the task, still
  registered, has its promise pending: no lifecycle notification was delivered.
\<close>

theorem waitForLifecycle_detach_counterexample:
  "ft_onLifecycle (taskStore page_wait 10) = Some \<lparr>waitUntil = ''load'', lifecycle_promise = Pending\<rparr>
   \<and> \<not> fired_in_subtree page_wait ''load'' 0
   \<and> frameDetached (Suc (Suc 0)) ''C'' page_wait = Some page_wait_detached
   \<and> fired_in_subtree page_wait_detached ''load'' 0
   \<and> checkLifecycleRecursively (Suc (Suc 0)) page_wait_detached ''load'' 0 = Some True
   \<and> 10 \<in> set (frameTasks (frameStore page_wait_detached 0))
   \<and> ft_onLifecycle (taskStore page_wait_detached 10)
       = Some \<lparr>waitUntil = ''load'', lifecycle_promise = Pending\<rparr>"
proof -
  note ev = page_wait_eval and dv = page_wait_detached_eval
  have nf: "\<not> fired_in_subtree page_wait ''load'' 0"
    using ev fired_in_subtree_unfold[of page_wait "''load''" 0] fired_in_subtree_unfold[of page_wait "''load''" 5]
    by simp
  have fi: "fired_in_subtree page_wait_detached ''load'' 0"
    using dv fired_in_subtree_unfold[of page_wait_detached "''load''" 0] by simp
  have chk: "checkLifecycleRecursively (Suc (Suc 0)) page_wait_detached ''load'' 0 = Some True"
    using dv by simp
  show ?thesis using ev dv nf fi chk by simp
qed

subsection \<open>Network-idle timer: invariant and the steps that keep the timer fields\<close>

lemma page_inv_except_empty: "page_inv s = page_inv_except {} s"
  by (simp add: page_inv_def page_inv_except_def)



lemma quiet_refl: "quiet s s"
  by (simp add: quiet_def)

lemma quiet_trans: "quiet a b \<Longrightarrow> quiet b c \<Longrightarrow> quiet a c"
  unfolding quiet_def by (metis order_trans)







lemma quiet_update_task: "quiet s (update_task t g s)"
  by (simp add: quiet_def update_task_def)

lemma quiet_emit: "quiet s (emit e s)"
  by (simp add: quiet_def emit_def)

lemma quiet_update_frame:
  "timer_fields (g (frameStore s f)) = timer_fields (frameStore s f) \<Longrightarrow> quiet s (update_frame f g s)"
  by (simp add: quiet_def update_frame_def)

lemma quiet_fold:
  "(\<And>x s. quiet s (h x s)) \<Longrightarrow> quiet s (fold h xs s)"
proof (induction xs arbitrary: s)
  case Nil
  then show ?case by (simp add: quiet_refl)
next
  case (Cons x xs)
  have "quiet s (h x s)" using Cons.prems by simp
  moreover have "quiet (h x s) (fold h xs (h x s))" using Cons.IH Cons.prems by simp
  ultimately show ?case using quiet_trans by simp
qed

lemma quiet_update_rerun: "quiet s (update_rerun r g s)"
  by (simp add: quiet_def update_rerun_def)


lemma quiet_terminate_all: "quiet s (terminate_all f s)"
  unfolding terminate_all_def
  by (rule quiet_fold) (rule quiet_fold, rule quiet_update_rerun)

lemma quiet_Frame_onDetached: "quiet s (Frame_onDetached f s)"
proof -
  let ?s1 = "update_frame f (\<lambda>fr. fr\<lparr>detached := True,
                 detachedPromise := promise_resolve () (detachedPromise fr)\<rparr>) s"
  let ?s2 = "terminate_all f ?s1"
  let ?s3 = "(case parentFrame (frameStore ?s2 f) of
                  Some p \<Rightarrow> update_frame p (\<lambda>pf. pf\<lparr>childFrames := set_delete f (childFrames pf)\<rparr>) ?s2
                | None \<Rightarrow> ?s2)"
  have 1: "quiet s ?s1" by (rule quiet_update_frame) (simp add: timer_fields_def)
  have 2: "quiet ?s1 ?s2" by (rule quiet_terminate_all)
  have 3: "quiet ?s2 ?s3"
  proof (cases "parentFrame (frameStore ?s2 f)")
    case None
    then show ?thesis by (simp add: quiet_refl)
  next
    case (Some p)
    have "quiet ?s2 (update_frame p (\<lambda>pf. pf\<lparr>childFrames := set_delete f (childFrames pf)\<rparr>) ?s2)"
      by (rule quiet_update_frame) (simp add: timer_fields_def)
    then show ?thesis using Some by simp
  qed
  have 4: "quiet ?s3 (update_frame f (\<lambda>fr. fr\<lparr>parentFrame := None\<rparr>) ?s3)"
    by (rule quiet_update_frame) (simp add: timer_fields_def)
  have e: "Frame_onDetached f s = update_frame f (\<lambda>fr. fr\<lparr>parentFrame := None\<rparr>) ?s3"
    by (simp add: Frame_onDetached_alt Let_def)
  show ?thesis
    unfolding e by (rule quiet_trans[OF quiet_trans[OF quiet_trans[OF 1 2] 3] 4])
qed

lemma quiet_remove_step:
  "quiet s (emit e (Frame_onDetached f s\<lparr>frames := (frames (Frame_onDetached f s))(k := None)\<rparr>))"
  using quiet_Frame_onDetached[of s f] by (simp add: quiet_def emit_def)

subsection \<open>Handlers that leave the timer fields\<close>

lemma quiet_removeFramesRecursively:
  "removeFramesRecursively n f s = Some s' \<Longrightarrow> quiet s s'"
proof (induction n arbitrary: f s s')
  case 0
  then show ?case by simp
next
  case (Suc n)
  from removeFramesRecursively_unfold[OF Suc.prems] obtain s1 where
    1: "removeChildFramesRecursively n f s = Some s1"
    and 2: "s' = emit (FrameDetached f)
          (Frame_onDetached f s1\<lparr>frames := (frames (Frame_onDetached f s1))(fid (frameStore (Frame_onDetached f s1) f) := None)\<rparr>)"
    by auto
  have "quiet s s1"
    using 1 unfolding removeChildFramesRecursively_def
    by (rule fold_option_rel[where R = quiet and body = "removeFramesRecursively n", rotated 3])
       (auto intro: Suc.IH quiet_refl quiet_trans)
  moreover have "quiet s1 s'" unfolding 2 by (rule quiet_remove_step)
  ultimately show ?case by (rule quiet_trans)
qed

lemma quiet_removeChildFramesRecursively:
  "removeChildFramesRecursively n f s = Some s' \<Longrightarrow> quiet s s'"
  unfolding removeChildFramesRecursively_def
  by (rule fold_option_rel[where R = quiet and body = "removeFramesRecursively n"])
     (auto intro: quiet_removeFramesRecursively quiet_refl quiet_trans)

lemma quiet_frameDetached: "frameDetached n frameId s = Some s' \<Longrightarrow> quiet s s'"
  by (auto simp: frameDetached_def quiet_refl quiet_removeFramesRecursively split: option.splits)








lemma quiet_onLifecycle: "FrameTask_onLifecycle n t s = Some s' \<Longrightarrow> quiet s s'"
  by (auto simp: FrameTask_onLifecycle_def quiet_refl quiet_update_task
      split: option.splits bool.splits)

lemma quiet_notify_tasks:
  "fold_option (FrameTask_onLifecycle n) ts s = Some s' \<Longrightarrow> quiet s s'"
  by (rule fold_option_rel[where R = quiet and body = "FrameTask_onLifecycle n"])
     (auto intro: quiet_onLifecycle quiet_refl quiet_trans)

lemma quiet_notifyLifecycle_from:
  "notifyLifecycle_from n k p s = Some s' \<Longrightarrow> quiet s s'"
proof (induction n k p s rule: notifyLifecycle_from.induct)
  case (1 n k s)
  then show ?case by (simp add: quiet_refl)
next
  case (2 n p s)
  then show ?case by simp
next
  case (3 n k p s)
  from "3.prems" obtain s1 where
    1: "fold_option (FrameTask_onLifecycle n) (frameTasks (frameStore s p)) s = Some s1"
    and 2: "notifyLifecycle_from n k (parentFrame (frameStore s1 p)) s1 = Some s'"
    by (auto split: option.splits)
  have "quiet s s1" using 1 by (rule quiet_notify_tasks)
  moreover have "quiet s1 s'" using "3.IH"[OF 1 2] .
  ultimately show ?case by (rule quiet_trans)
qed

subsection \<open>Handlers that touch the timer of one frame\<close>


lemma touches_refl: "touches f s s"
  by (simp add: touches_def)





lemma clearFrameLifecycle_result:
  "clearFrameLifecycle f s =
     Returns (update_frame f (\<lambda>fr. fr\<lparr>firedLifecycleEvents := [],
        inflightRequests := filter (\<lambda>request. rq_documentId request = Some (lastDocumentId fr)) (inflightRequests fr),
        networkIdleTimer := (if filter (\<lambda>request. rq_documentId request = Some (lastDocumentId fr)) (inflightRequests fr) = []
                             then Some (Timer 500 True) else None)\<rparr>) s)"
  by (simp add: clearFrameLifecycle_def Let_def Frame_stopNetworkIdleTimer_def
      Frame_startNetworkIdleTimer_def update_frame_def)



lemma frameLifecycleEvent_new:
  assumes "frameLifecycleEvent n frameId event s = Some s'" and Some: "frames s frameId = Some f"
    and False: "event \<notin> set (firedLifecycleEvents (frameStore s f))"
  shows "quiet (update_frame f (\<lambda>fr. fr\<lparr>firedLifecycleEvents := firedLifecycleEvents fr @ [event]\<rparr>) s) s'"
proof -
  let ?s1 = "update_frame f (\<lambda>fr. fr\<lparr>firedLifecycleEvents := firedLifecycleEvents fr @ [event]\<rparr>) s"
  have e1: "update_frame f (\<lambda>fr. fr\<lparr>firedLifecycleEvents := set_add event (firedLifecycleEvents fr)\<rparr>) s = ?s1"
    using False by (simp add: update_frame_def set_add_def)
  from assms(1) Some False e1 obtain s2 where
    2: "notifyLifecycle_from n n (Some f) ?s1 = Some s2"
    and 3: "s' = (let sa = (if Some f = mainFrame s2 \<and> event = ''load'' then emit Load s2 else s2)
                  in (if Some f = mainFrame sa \<and> event = ''domcontentloaded''
                      then emit DOMContentLoaded sa else sa))"
    by (auto simp: frameLifecycleEvent_def notifyLifecycle_def Let_def split: option.splits)
  have q2: "quiet ?s1 s2" using 2 by (rule quiet_notifyLifecycle_from)
  have q3: "quiet s2 s'"
    unfolding 3 Let_def
    by (auto intro: quiet_refl quiet_emit quiet_trans)
  show ?thesis using quiet_trans[OF q2 q3] .
qed

lemma frameLifecycleEvent_old:
  "frames s frameId = None \<or> (\<exists>f. frames s frameId = Some f \<and> event \<in> set (firedLifecycleEvents (frameStore s f)))
   \<Longrightarrow> frameLifecycleEvent n frameId event s = Some s"
  by (auto simp: frameLifecycleEvent_def)




subsection \<open>Request handlers and new-document commit keep the invariant\<close>







subsection \<open>Attaching a frame\<close>





subsection \<open>Network-idle timer invariant (C4)\<close>






subsection \<open>Timer on commit and detach (C6)\<close>

lemma quiet_fields:
  "quiet s s' \<Longrightarrow>
   networkIdleTimer (frameStore s' g) = networkIdleTimer (frameStore s g)
   \<and> inflightRequests (frameStore s' g) = inflightRequests (frameStore s g)
   \<and> firedLifecycleEvents (frameStore s' g) = firedLifecycleEvents (frameStore s g)
   \<and> fid (frameStore s' g) = fid (frameStore s g)"
  by (simp add: quiet_def timer_fields_def)

lemma fold_update_task_frameStore:
  "frameStore (fold (\<lambda>t s'. update_task t (h s') s') ts s) = frameStore s"
  by (induction ts arbitrary: s) (simp_all add: update_task_def)


lemma commit_result:
  assumes f: "frames s frameId = Some f"
    and r: "frameCommittedNewDocumentNavigation n dbg frameId u nm d initial s = Some (Returns s')"
  shows "firedLifecycleEvents (frameStore s' f) = []
       \<and> inflightRequests (frameStore s' f)
           = filter (\<lambda>request. rq_documentId request = Some d) (inflightRequests (frameStore s f))
       \<and> networkIdleTimer (frameStore s' f)
           = (if inflightRequests (frameStore s' f) = [] then Some (Timer 500 True) else None)"
proof -
  from r f obtain s1 where 1: "removeChildFramesRecursively n f s = Some s1"
    by (auto simp: frameCommittedNewDocumentNavigation_def split: option.splits)
  have q1: "inflightRequests (frameStore s1 f) = inflightRequests (frameStore s f)"
    using quiet_fields[OF quiet_removeChildFramesRecursively[OF 1]] by simp
  let ?s2 = "update_frame f (\<lambda>fr. fr\<lparr>url := u, name := nm\<rparr>) s1"
  let ?s3 = "update_frame f (\<lambda>fr. fr\<lparr>lastDocumentId := d, pendingDocumentId := []\<rparr>) ?s2"
  let ?s4 = "fold (\<lambda>t s'. update_task t (FrameTask_onNewDocument (url (frameStore s' f)) d None) s')
                                 (frameTasks (frameStore ?s3 f)) ?s3"
  let ?s5 = "state_of (clearFrameLifecycle f ?s4)"
  have fs4: "frameStore ?s4 = frameStore ?s3" by (rule fold_update_task_frameStore)
  have o: "s' = (if \<not> initial then emit (FrameNavigated f) ?s5 else ?s5)"
    using r f 1
    by (auto simp: frameCommittedNewDocumentNavigation_def Let_def clearFrameLifecycle_result state_of_def
        split: if_splits)
  have fr: "frameStore s' f = frameStore ?s5 f" unfolding o by (simp add: emit_def)
  show ?thesis
    unfolding fr
    by (simp add: clearFrameLifecycle_result state_of_def update_frame_def fold_update_task_frameStore q1[symmetric])
qed


lemma removeFramesRecursively_unregisters:
  assumes "removeFramesRecursively n f s = Some s'"
  shows "frames s' (fid (frameStore s' f)) = None"
proof -
  from removeFramesRecursively_unfold[OF assms] obtain s1 where
    "s' = emit (FrameDetached f)
          (Frame_onDetached f s1\<lparr>frames := (frames (Frame_onDetached f s1))(fid (frameStore (Frame_onDetached f s1) f) := None)\<rparr>)"
    by blast
  then show ?thesis by (simp add: emit_def)
qed



subsection \<open>Timer transitions (C5)\<close>

lemma lifecycle_timer:
  assumes "frameLifecycleEvent n frameId event s = Some s'"
  shows "networkIdleTimer (frameStore s' g) = networkIdleTimer (frameStore s g)
       \<and> inflightRequests (frameStore s' g) = inflightRequests (frameStore s g)"
proof (cases "frames s frameId")
  case None
  then show ?thesis using assms frameLifecycleEvent_old[of s frameId event n] by simp
next
  case (Some f)
  show ?thesis
  proof (cases "event \<in> set (firedLifecycleEvents (frameStore s f))")
    case True
    then show ?thesis using assms Some frameLifecycleEvent_old[of s frameId event n] by simp
  next
    case False
    from quiet_fields[OF frameLifecycleEvent_new[OF assms Some False], of g]
    show ?thesis by (simp add: update_frame_def)
  qed
qed

lemma lifecycle_fired:
  assumes "frameLifecycleEvent n frameId event s = Some s'" and "frames s frameId = Some f"
  shows "event \<in> set (firedLifecycleEvents (frameStore s' f))"
proof (cases "event \<in> set (firedLifecycleEvents (frameStore s f))")
  case True
  then show ?thesis using assms frameLifecycleEvent_old[of s frameId event n] by simp
next
  case False
  from quiet_fields[OF frameLifecycleEvent_new[OF assms False], of f]
  show ?thesis by (simp add: update_frame_def)
qed

lemma lifecycle_total:
  assumes fr: "frames s frameId = Some g"
    and hs: "\<And>b u. b \<in> ancestors s g \<Longrightarrow> u \<in> set (frameTasks (frameStore s b))
               \<Longrightarrow> height_le n s (ft_frame (taskStore s u))"
    and ch: "chain_le n s (Some g)"
  shows "\<exists>s'. frameLifecycleEvent n frameId event s = Some s'"
proof (cases "event \<in> set (firedLifecycleEvents (frameStore s g))")
  case True
  then show ?thesis using fr frameLifecycleEvent_old[of s frameId event n] by simp
next
  case nf: False
  let ?s1 = "update_frame g (\<lambda>fr. fr\<lparr>firedLifecycleEvents := set_add event (firedLifecycleEvents fr)\<rparr>) s"
  have kids: "\<And>f. childFrames (frameStore ?s1 f) = childFrames (frameStore s f)"
    and pars: "\<And>f. parentFrame (frameStore ?s1 f) = parentFrame (frameStore s f)"
    and tasks: "\<And>f. frameTasks (frameStore ?s1 f) = frameTasks (frameStore s f)"
    and ts1: "taskStore ?s1 = taskStore s"
    by (simp_all add: update_frame_def)
  have anc1: "\<And>q. ancestors ?s1 q = ancestors s q" using ancestors_cong[of ?s1 s, OF pars] by simp
  have c1: "chain_le n ?s1 (Some g)" using ch chain_le_cong[of ?s1 s n, OF pars] by simp
  have "\<exists>s2. notifyLifecycle_from n n (Some g) ?s1 = Some s2 \<and> notified ?s1 s2
            \<and> (\<forall>q a t. Some g = Some q \<longrightarrow> a \<in> ancestors ?s1 q
                   \<longrightarrow> t \<in> set (frameTasks (frameStore ?s1 a)) \<longrightarrow> settled_ok s2 t)"
  proof (rule walk_notified)
    fix q b u
    assume that: "Some g = Some q" "b \<in> ancestors ?s1 q" "u \<in> set (frameTasks (frameStore ?s1 b))"
    show "height_le n ?s1 (ft_frame (taskStore ?s1 u))"
      using that hs[of b u] anc1 tasks[of b] ts1 height_le_cong[of ?s1 s n, OF kids] by simp
  next
    show "chain_le n ?s1 (Some g)" by (rule c1)
  qed
  then obtain s2 where 2: "notifyLifecycle_from n n (Some g) ?s1 = Some s2" by blast
  show ?thesis
    using fr nf 2 by (simp add: frameLifecycleEvent_def notifyLifecycle_def Let_def)
qed

lemma timer_fired_registered:
  assumes reg: "frames s (fid (frameStore s f)) = Some f"
    and t: "networkIdleTimer (frameStore s f) = Some (Timer d True)"
    and hs: "\<And>b u. b \<in> ancestors s f \<Longrightarrow> u \<in> set (frameTasks (frameStore s b))
               \<Longrightarrow> height_le n s (ft_frame (taskStore s u))"
    and ch: "chain_le n s (Some f)"
  shows "\<exists>s'. networkIdleTimer_fired n f s = Some s'
      \<and> ''networkidle'' \<in> set (firedLifecycleEvents (frameStore s' f))
      \<and> networkIdleTimer (frameStore s' f) = Some (Timer d False)
      \<and> inflightRequests (frameStore s' f) = inflightRequests (frameStore s f)"
proof -
  let ?s0 = "update_frame f (\<lambda>fr. fr\<lparr>networkIdleTimer := Some (Timer d False)\<rparr>) s"
  have kids: "\<And>g. childFrames (frameStore ?s0 g) = childFrames (frameStore s g)"
    and pars: "\<And>g. parentFrame (frameStore ?s0 g) = parentFrame (frameStore s g)"
    and tasks: "\<And>g. frameTasks (frameStore ?s0 g) = frameTasks (frameStore s g)"
    and ts0: "taskStore ?s0 = taskStore s"
    and fr0: "frames ?s0 (fid (frameStore s f)) = Some f"
    using reg by (simp_all add: update_frame_def)
  have anc0: "\<And>q. ancestors ?s0 q = ancestors s q" using ancestors_cong[of ?s0 s, OF pars] by simp
  have c0: "chain_le n ?s0 (Some f)" using ch chain_le_cong[of ?s0 s n, OF pars] by simp
  have "\<exists>s'. frameLifecycleEvent n (fid (frameStore s f)) ''networkidle'' ?s0 = Some s'"
  proof (rule lifecycle_total[OF fr0])
    fix b u
    assume that: "b \<in> ancestors ?s0 f" "u \<in> set (frameTasks (frameStore ?s0 b))"
    show "height_le n ?s0 (ft_frame (taskStore ?s0 u))"
      using that hs[of b u] anc0 tasks[of b] ts0 height_le_cong[of ?s0 s n, OF kids] by simp
  next
    show "chain_le n ?s0 (Some f)" by (rule c0)
  qed
  then obtain s' where r: "frameLifecycleEvent n (fid (frameStore s f)) ''networkidle'' ?s0 = Some s'"
    by blast
  have e: "networkIdleTimer_fired n f s = Some s'" using r t by (simp add: networkIdleTimer_fired_def)
  from lifecycle_timer[OF r, of f] lifecycle_fired[OF r fr0] e
  show ?thesis by (simp add: update_frame_def)
qed

lemma inflightRequestFinished_result:
  assumes "\<not> rq_isFavicon r" and "r \<in> set (inflightRequests (frameStore s (rq_frame r)))"
    and "networkIdleTimer (frameStore s (rq_frame r)) = None"
  shows "\<exists>s'. inflightRequestFinished r s = Returns s'
     \<and> inflightRequests (frameStore s' (rq_frame r)) = removeAll r (inflightRequests (frameStore s (rq_frame r)))
     \<and> networkIdleTimer (frameStore s' (rq_frame r))
         = (if removeAll r (inflightRequests (frameStore s (rq_frame r))) = []
               \<and> ''networkidle'' \<notin> set (firedLifecycleEvents (frameStore s (rq_frame r)))
            then Some (Timer 500 True) else None)"
  using assms
  by (simp add: inflightRequestFinished_def Let_def Frame_startNetworkIdleTimer_def update_frame_def
      set_delete_def)

lemma inflightRequestFinished_noop:
  "rq_isFavicon r \<or> r \<notin> set (inflightRequests (frameStore s (rq_frame r)))
   \<Longrightarrow> inflightRequestFinished r s = Returns s"
  by (auto simp: inflightRequestFinished_def Let_def)

lemma inflightRequestStarted_result:
  "\<not> rq_isFavicon r \<Longrightarrow>
   inflightRequests (frameStore (inflightRequestStarted r s) (rq_frame r))
     = set_add r (inflightRequests (frameStore s (rq_frame r)))
   \<and> networkIdleTimer (frameStore (inflightRequestStarted r s) (rq_frame r))
     = (if length (set_add r (inflightRequests (frameStore s (rq_frame r)))) = 1 then None
        else networkIdleTimer (frameStore s (rq_frame r)))"
  by (simp add: inflightRequestStarted_def Let_def Frame_stopNetworkIdleTimer_def update_frame_def)

lemma inflightRequestStarted_favicon: "rq_isFavicon r \<Longrightarrow> inflightRequestStarted r s = s"
  by (simp add: inflightRequestStarted_def)

text \<open>
  C5, amended. The timer of a frame is started, with a delay of 500 ms, in two places. A
  request that finishes or fails, is not a favicon request and was in flight is removed, and
  the timer is started if that leaves no request in flight and \<open>networkidle\<close> has not fired
  (a favicon request, or a request that was not in flight, changes nothing).
  \<open>clearFrameLifecycle\<close>, which a new-document commit calls, clears the fired events, keeps
  of the requests in flight those of the last committed document, stops the timer and
  starts a new one if no request remains in flight. When the timer of a frame registered
  under its id fires, \<open>networkidle\<close> is among the fired events of the frame afterwards and the
  timer is no longer pending. A request start that is not a favicon request adds the
  request and stops the timer if the in-flight set then has one element; a favicon request
  start changes nothing. \<open>frameLifecycleEvent\<close> and \<open>frameDetached\<close> change the timer and
  the requests in flight of no frame.
\<close>

theorem network_idle_timer_transitions:
  "(\<not> rq_isFavicon r \<and> r \<in> set (inflightRequests (frameStore s (rq_frame r)))
      \<and> networkIdleTimer (frameStore s (rq_frame r)) = None
     \<longrightarrow> (\<exists>s'. inflightRequestFinished r s = Returns s'
          \<and> inflightRequests (frameStore s' (rq_frame r))
              = removeAll r (inflightRequests (frameStore s (rq_frame r)))
          \<and> networkIdleTimer (frameStore s' (rq_frame r))
              = (if removeAll r (inflightRequests (frameStore s (rq_frame r))) = []
                    \<and> ''networkidle'' \<notin> set (firedLifecycleEvents (frameStore s (rq_frame r)))
                 then Some (Timer 500 True) else None)))
   \<and> (rq_isFavicon r \<or> r \<notin> set (inflightRequests (frameStore s (rq_frame r)))
     \<longrightarrow> inflightRequestFinished r s = Returns s)
   \<and> (\<not> rq_isFavicon r
     \<longrightarrow> inflightRequests (frameStore (inflightRequestStarted r s) (rq_frame r))
           = set_add r (inflightRequests (frameStore s (rq_frame r)))
         \<and> networkIdleTimer (frameStore (inflightRequestStarted r s) (rq_frame r))
           = (if length (set_add r (inflightRequests (frameStore s (rq_frame r)))) = 1 then None
              else networkIdleTimer (frameStore s (rq_frame r))))
   \<and> (rq_isFavicon r \<longrightarrow> inflightRequestStarted r s = s)
   \<and> clearFrameLifecycle f s
       = Returns (update_frame f (\<lambda>fr. fr\<lparr>firedLifecycleEvents := [],
            inflightRequests := filter (\<lambda>request. rq_documentId request = Some (lastDocumentId fr))
                                  (inflightRequests fr),
            networkIdleTimer := (if filter (\<lambda>request. rq_documentId request = Some (lastDocumentId fr))
                                      (inflightRequests fr) = []
                                 then Some (Timer 500 True) else None)\<rparr>) s)
   \<and> (frames s frameId = Some f
        \<and> frameCommittedNewDocumentNavigation n dbg frameId u nm d initial s = Some (Returns sc)
     \<longrightarrow> firedLifecycleEvents (frameStore sc f) = []
         \<and> inflightRequests (frameStore sc f)
             = filter (\<lambda>request. rq_documentId request = Some d) (inflightRequests (frameStore s f))
         \<and> networkIdleTimer (frameStore sc f)
             = (if inflightRequests (frameStore sc f) = [] then Some (Timer 500 True) else None))
   \<and> (frames s (fid (frameStore s f)) = Some f
        \<and> networkIdleTimer (frameStore s f) = Some (Timer delay True)
        \<and> (\<forall>b\<in>ancestors s f. \<forall>t\<in>set (frameTasks (frameStore s b)).
               height_le n s (ft_frame (taskStore s t)))
        \<and> chain_le n s (Some f)
     \<longrightarrow> (\<exists>sf. networkIdleTimer_fired n f s = Some sf
          \<and> ''networkidle'' \<in> set (firedLifecycleEvents (frameStore sf f))
          \<and> networkIdleTimer (frameStore sf f) = Some (Timer delay False)
          \<and> inflightRequests (frameStore sf f) = inflightRequests (frameStore s f)))
   \<and> (frameLifecycleEvent n frameId event s = Some sl
     \<longrightarrow> networkIdleTimer (frameStore sl g) = networkIdleTimer (frameStore s g)
         \<and> inflightRequests (frameStore sl g) = inflightRequests (frameStore s g))
   \<and> (frameDetached n frameId s = Some sd
     \<longrightarrow> networkIdleTimer (frameStore sd g) = networkIdleTimer (frameStore s g)
         \<and> inflightRequests (frameStore sd g) = inflightRequests (frameStore s g))"
proof -
  have a: "\<exists>s'. inflightRequestFinished r s = Returns s'
          \<and> inflightRequests (frameStore s' (rq_frame r))
              = removeAll r (inflightRequests (frameStore s (rq_frame r)))
          \<and> networkIdleTimer (frameStore s' (rq_frame r))
              = (if removeAll r (inflightRequests (frameStore s (rq_frame r))) = []
                    \<and> ''networkidle'' \<notin> set (firedLifecycleEvents (frameStore s (rq_frame r)))
                 then Some (Timer 500 True) else None)"
    if "\<not> rq_isFavicon r \<and> r \<in> set (inflightRequests (frameStore s (rq_frame r)))
      \<and> networkIdleTimer (frameStore s (rq_frame r)) = None"
    using that inflightRequestFinished_result[of r s] by blast
  have b: "inflightRequestFinished r s = Returns s"
    if "rq_isFavicon r \<or> r \<notin> set (inflightRequests (frameStore s (rq_frame r)))"
    using that by (rule inflightRequestFinished_noop)
  have c: "inflightRequests (frameStore (inflightRequestStarted r s) (rq_frame r))
           = set_add r (inflightRequests (frameStore s (rq_frame r)))
         \<and> networkIdleTimer (frameStore (inflightRequestStarted r s) (rq_frame r))
           = (if length (set_add r (inflightRequests (frameStore s (rq_frame r)))) = 1 then None
              else networkIdleTimer (frameStore s (rq_frame r)))"
    if "\<not> rq_isFavicon r"
    using that by (rule inflightRequestStarted_result)
  have d: "inflightRequestStarted r s = s" if "rq_isFavicon r"
    using that by (rule inflightRequestStarted_favicon)
  note e = clearFrameLifecycle_result[of f s]
  have g: "firedLifecycleEvents (frameStore sc f) = []
         \<and> inflightRequests (frameStore sc f)
             = filter (\<lambda>request. rq_documentId request = Some d) (inflightRequests (frameStore s f))
         \<and> networkIdleTimer (frameStore sc f)
             = (if inflightRequests (frameStore sc f) = [] then Some (Timer 500 True) else None)"
    if "frames s frameId = Some f
        \<and> frameCommittedNewDocumentNavigation n dbg frameId u nm d initial s = Some (Returns sc)"
    using commit_result[of s frameId f n dbg u nm d initial sc] that by blast
  have h: "\<exists>sf. networkIdleTimer_fired n f s = Some sf
          \<and> ''networkidle'' \<in> set (firedLifecycleEvents (frameStore sf f))
          \<and> networkIdleTimer (frameStore sf f) = Some (Timer delay False)
          \<and> inflightRequests (frameStore sf f) = inflightRequests (frameStore s f)"
    if p: "frames s (fid (frameStore s f)) = Some f
        \<and> networkIdleTimer (frameStore s f) = Some (Timer delay True)
        \<and> (\<forall>b\<in>ancestors s f. \<forall>t\<in>set (frameTasks (frameStore s b)).
               height_le n s (ft_frame (taskStore s t)))
        \<and> chain_le n s (Some f)"
  proof (rule timer_fired_registered)
    show "frames s (fid (frameStore s f)) = Some f" using p by simp
    show "networkIdleTimer (frameStore s f) = Some (Timer delay True)" using p by simp
    show "chain_le n s (Some f)" using p by simp
    fix b t assume "b \<in> ancestors s f" "t \<in> set (frameTasks (frameStore s b))"
    then show "height_le n s (ft_frame (taskStore s t))" using p by blast
  qed
  have i: "networkIdleTimer (frameStore sl g) = networkIdleTimer (frameStore s g)
         \<and> inflightRequests (frameStore sl g) = inflightRequests (frameStore s g)"
    if "frameLifecycleEvent n frameId event s = Some sl"
    using that by (rule lifecycle_timer)
  have j: "networkIdleTimer (frameStore sd g) = networkIdleTimer (frameStore s g)
         \<and> inflightRequests (frameStore sd g) = inflightRequests (frameStore s g)"
    if "frameDetached n frameId s = Some sd"
    using quiet_fields[OF quiet_frameDetached[OF that], of g] by simp
  show ?thesis
    by (rule conjI[OF impI[OF a] conjI[OF impI[OF b] conjI[OF impI[OF c] conjI[OF impI[OF d]
          conjI[OF e conjI[OF impI[OF g] conjI[OF impI[OF h] conjI[OF impI[OF i] impI[OF j]]]]]]]]])
qed

subsection \<open>Example pages for the timer\<close>

lemma page_committed_eval:
  "frameCommittedNewDocumentNavigation (Suc 0) False ''F'' ''https://a/'' [] ''D1'' True page_main
     = Some (Returns page_committed)
   \<and> frames page_committed = [''F'' \<mapsto> 0] \<and> mainFrame page_committed = Some 0
   \<and> fid (frameStore page_committed 0) = ''F''
   \<and> childFrames (frameStore page_committed 0) = [] \<and> parentFrame (frameStore page_committed 0) = None
   \<and> frameTasks (frameStore page_committed 0) = []
   \<and> firedLifecycleEvents (frameStore page_committed 0) = []
   \<and> inflightRequests (frameStore page_committed 0) = []
   \<and> networkIdleTimer (frameStore page_committed 0) = Some (Timer 500 True)"
  using page_main_frames
  by (simp add: page_committed_def or_else_def frameCommittedNewDocumentNavigation_def
      removeChildFramesRecursively_def clearFrameLifecycle_result state_of_def update_frame_def Let_def)

lemma page_idle_eval:
  "networkIdleTimer_fired (Suc 0) 0 page_committed = Some page_idle
   \<and> frames page_idle = [''F'' \<mapsto> 0] \<and> mainFrame page_idle = Some 0
   \<and> fid (frameStore page_idle 0) = ''F''
   \<and> childFrames (frameStore page_idle 0) = [] \<and> parentFrame (frameStore page_idle 0) = None
   \<and> frameTasks (frameStore page_idle 0) = []
   \<and> firedLifecycleEvents (frameStore page_idle 0) = [''networkidle'']
   \<and> inflightRequests (frameStore page_idle 0) = []
   \<and> networkIdleTimer (frameStore page_idle 0) = Some (Timer 500 False)"
  using page_committed_eval
  by (simp add: page_idle_def networkIdleTimer_fired_def lifecycle_defs update_frame_def set_add_def)

lemma page_recommitted_eval:
  "frameCommittedNewDocumentNavigation (Suc 0) False ''F'' ''https://b/'' [] ''D2'' False page_idle
     = Some (Returns page_recommitted)
   \<and> frames page_recommitted = [''F'' \<mapsto> 0]
   \<and> firedLifecycleEvents (frameStore page_recommitted 0) = []
   \<and> inflightRequests (frameStore page_recommitted 0) = []
   \<and> networkIdleTimer (frameStore page_recommitted 0) = Some (Timer 500 True)"
  using page_idle_eval
  by (simp add: page_recommitted_def or_else_def frameCommittedNewDocumentNavigation_def
      removeChildFramesRecursively_def clearFrameLifecycle_result state_of_def update_frame_def Let_def
      emit_def)

lemma page_committed_detached_eval:
  "frameDetached (Suc 0) ''F'' page_committed = Some page_committed_detached
   \<and> frames page_committed_detached ''F'' = None
   \<and> detached (frameStore page_committed_detached 0)
   \<and> fid (frameStore page_committed_detached 0) = ''F''
   \<and> inflightRequests (frameStore page_committed_detached 0) = []
   \<and> firedLifecycleEvents (frameStore page_committed_detached 0) = []
   \<and> networkIdleTimer (frameStore page_committed_detached 0) = Some (Timer 500 True)"
proof -
  note ev = page_committed_eval
  have h: "height_le (Suc 0) page_committed 0" using ev by simp
  from removeFramesRecursively_total[OF h] obtain sd where
    sd: "removeFramesRecursively (Suc 0) 0 page_committed = Some sd" by blast
  have fd: "frameDetached (Suc 0) ''F'' page_committed = Some sd"
    using sd ev by (simp add: frameDetached_def)
  have e: "page_committed_detached = sd" using fd by (simp add: page_committed_detached_def or_else_def)
  note q = quiet_fields[OF quiet_frameDetached[OF fd], of 0]
  have u: "frames sd (fid (frameStore sd 0)) = None" using sd by (rule removeFramesRecursively_unregisters)
  have "frameStore sd = frameStore (Frame_onDetached 0 page_committed)"
    using sd ev by (auto simp: emit_def Let_def)
  then have d: "detached (frameStore sd 0)"
    using Frame_onDetached_detached[of 0 page_committed] by simp
  show ?thesis unfolding e using fd q u d ev by simp
qed

subsection \<open>The timer claims on the example pages\<close>




text \<open>
  C5, as stated, fails: on the idle page (no request in flight, \<open>networkidle\<close> fired, no timer
  running) a new-document commit leaves the in-flight set empty, as it was, and the timer
  is running afterwards. The timer is started without a transition of the in-flight set to
  empty, and the commit does not leave it stopped.
\<close>

theorem commit_starts_timer_counterexample:
  "inflightRequests (frameStore page_idle 0) = []
   \<and> ''networkidle'' \<in> set (firedLifecycleEvents (frameStore page_idle 0))
   \<and> \<not> timer_running (frameStore page_idle 0)
   \<and> frameCommittedNewDocumentNavigation (Suc 0) False ''F'' ''https://b/'' [] ''D2'' False page_idle
       = Some (Returns page_recommitted)
   \<and> inflightRequests (frameStore page_recommitted 0) = []
   \<and> networkIdleTimer (frameStore page_recommitted 0) = Some (Timer 500 True)
   \<and> timer_running (frameStore page_recommitted 0)"
  using page_idle_eval page_recommitted_eval by (simp add: timer_running_def)


text \<open>
  C5, amended, on the committed page: a request starts and stops the timer, it finishes and
  the timer is started again; a request that is not in flight and a favicon request change
  nothing; the idle page commits a second document and its timer is started; the timer of
  the committed page fires and declares \<open>networkidle\<close>; a \<open>load\<close> event and a detach leave
  the timer and the requests in flight.
\<close>

theorem network_idle_timer_transitions_witness:
  "\<not> rq_isFavicon page_request
   \<and> inflightRequests (frameStore (inflightRequestStarted page_request page_committed) 0) = [page_request]
   \<and> networkIdleTimer (frameStore (inflightRequestStarted page_request page_committed) 0) = None
   \<and> (\<exists>s'. inflightRequestFinished page_request (inflightRequestStarted page_request page_committed)
              = Returns s'
         \<and> inflightRequests (frameStore s' 0) = []
         \<and> networkIdleTimer (frameStore s' 0) = Some (Timer 500 True))
   \<and> page_request \<notin> set (inflightRequests (frameStore page_committed (rq_frame page_request)))
   \<and> inflightRequestFinished page_request page_committed = Returns page_committed
   \<and> rq_isFavicon (page_request\<lparr>rq_isFavicon := True\<rparr>)
   \<and> inflightRequestStarted (page_request\<lparr>rq_isFavicon := True\<rparr>) page_committed = page_committed
   \<and> frames page_idle ''F'' = Some 0
   \<and> frameCommittedNewDocumentNavigation (Suc 0) False ''F'' ''https://b/'' [] ''D2'' False page_idle
       = Some (Returns page_recommitted)
   \<and> firedLifecycleEvents (frameStore page_recommitted 0) = []
   \<and> networkIdleTimer (frameStore page_recommitted 0) = Some (Timer 500 True)
   \<and> frames page_committed (fid (frameStore page_committed 0)) = Some 0
   \<and> networkIdleTimer (frameStore page_committed 0) = Some (Timer 500 True)
   \<and> chain_le (Suc 0) page_committed (Some 0)
   \<and> (\<exists>sf. networkIdleTimer_fired (Suc 0) 0 page_committed = Some sf
         \<and> ''networkidle'' \<in> set (firedLifecycleEvents (frameStore sf 0))
         \<and> networkIdleTimer (frameStore sf 0) = Some (Timer 500 False))
   \<and> (\<exists>sl. frameLifecycleEvent (Suc 0) ''F'' ''load'' page_committed = Some sl
         \<and> networkIdleTimer (frameStore sl 0) = Some (Timer 500 True))
   \<and> frameDetached (Suc 0) ''F'' page_committed = Some page_committed_detached
   \<and> inflightRequests (frameStore page_committed_detached 0) = []"
proof -
  note ev = page_committed_eval and iv = page_idle_eval and rv = page_recommitted_eval
    and dv = page_committed_detached_eval
  let ?s = "inflightRequestStarted page_request page_committed"
  let ?fav = "page_request\<lparr>rq_isFavicon := True\<rparr>"
  have nf: "\<not> rq_isFavicon page_request" and rf: "rq_frame page_request = 0"
    by (simp_all add: page_request_def)
  note st = network_idle_timer_transitions[where r = page_request and s = page_committed,
      THEN conjunct2, THEN conjunct2, THEN conjunct1, THEN mp, OF nf]
  have i1: "inflightRequests (frameStore ?s 0) = [page_request]"
    and t1: "networkIdleTimer (frameStore ?s 0) = None"
    using st ev rf by (simp_all add: set_add_def)
  have f1: "firedLifecycleEvents (frameStore ?s 0) = []"
    using ev by (simp add: inflightRequestStarted_def Let_def Frame_stopNetworkIdleTimer_def update_frame_def)
  have h1: "\<not> rq_isFavicon page_request
      \<and> page_request \<in> set (inflightRequests (frameStore ?s (rq_frame page_request)))
      \<and> networkIdleTimer (frameStore ?s (rq_frame page_request)) = None"
    using nf rf i1 t1 by simp
  note fin = network_idle_timer_transitions[where r = page_request and s = ?s,
      THEN conjunct1, THEN mp, OF h1]
  have fin': "\<exists>s'. inflightRequestFinished page_request ?s = Returns s'
         \<and> inflightRequests (frameStore s' 0) = []
         \<and> networkIdleTimer (frameStore s' 0) = Some (Timer 500 True)"
    using fin rf i1 f1 by simp
  have ni: "page_request \<notin> set (inflightRequests (frameStore page_committed (rq_frame page_request)))"
    using ev rf by simp
  have h0: "rq_isFavicon page_request
      \<or> page_request \<notin> set (inflightRequests (frameStore page_committed (rq_frame page_request)))"
    using ni by simp
  note noop = network_idle_timer_transitions[where r = page_request and s = page_committed,
      THEN conjunct2, THEN conjunct1, THEN mp, OF h0]
  have fv: "rq_isFavicon ?fav" by simp
  note fav = network_idle_timer_transitions[where r = ?fav and s = page_committed,
      THEN conjunct2, THEN conjunct2, THEN conjunct2, THEN conjunct1, THEN mp, OF fv]
  have c1: "frames page_idle ''F'' = Some 0
      \<and> frameCommittedNewDocumentNavigation (Suc 0) False ''F'' ''https://b/'' [] ''D2'' False page_idle
       = Some (Returns page_recommitted)" using iv rv by simp
  note cm = network_idle_timer_transitions[where s = page_idle and frameId = "''F''" and f = 0
      and n = "Suc 0" and dbg = False and u = "''https://b/''" and nm = "[]" and d = "''D2''"
      and initial = False and sc = page_recommitted,
      THEN conjunct2, THEN conjunct2, THEN conjunct2, THEN conjunct2, THEN conjunct2,
      THEN conjunct1, THEN mp, OF c1]
  have cm': "firedLifecycleEvents (frameStore page_recommitted 0) = []
      \<and> networkIdleTimer (frameStore page_recommitted 0) = Some (Timer 500 True)"
    using cm rv by simp
  have reg: "frames page_committed (fid (frameStore page_committed 0)) = Some 0" using ev by simp
  have tm: "networkIdleTimer (frameStore page_committed 0) = Some (Timer 500 True)" using ev by simp
  have ch: "chain_le (Suc 0) page_committed (Some 0)" using ev by simp
  have an: "\<forall>b\<in>ancestors page_committed 0. \<forall>t\<in>set (frameTasks (frameStore page_committed b)).
               height_le (Suc 0) page_committed (ft_frame (taskStore page_committed t))"
  proof (intro ballI)
    fix b t
    assume b: "b \<in> ancestors page_committed 0" and t: "t \<in> set (frameTasks (frameStore page_committed b))"
    from ancestors_step[OF b] have "b = 0" using ev by simp
    then show "height_le (Suc 0) page_committed (ft_frame (taskStore page_committed t))"
      using t ev by simp
  qed
  have h2: "frames page_committed (fid (frameStore page_committed 0)) = Some 0
        \<and> networkIdleTimer (frameStore page_committed 0) = Some (Timer 500 True)
        \<and> (\<forall>b\<in>ancestors page_committed 0. \<forall>t\<in>set (frameTasks (frameStore page_committed b)).
               height_le (Suc 0) page_committed (ft_frame (taskStore page_committed t)))
        \<and> chain_le (Suc 0) page_committed (Some 0)"
    using reg tm an ch by blast
  note fire = network_idle_timer_transitions[where s = page_committed and f = 0 and n = "Suc 0"
      and delay = 500,
      THEN conjunct2, THEN conjunct2, THEN conjunct2, THEN conjunct2, THEN conjunct2, THEN conjunct2,
      THEN conjunct1, THEN mp, OF h2]
  have fire': "\<exists>sf. networkIdleTimer_fired (Suc 0) 0 page_committed = Some sf
         \<and> ''networkidle'' \<in> set (firedLifecycleEvents (frameStore sf 0))
         \<and> networkIdleTimer (frameStore sf 0) = Some (Timer 500 False)"
    using fire by blast
  have "\<exists>sl. frameLifecycleEvent (Suc 0) ''F'' ''load'' page_committed = Some sl"
  proof (rule lifecycle_total)
    show "frames page_committed ''F'' = Some 0" using ev by simp
    show "chain_le (Suc 0) page_committed (Some 0)" by (rule ch)
    fix b u assume "b \<in> ancestors page_committed 0" "u \<in> set (frameTasks (frameStore page_committed b))"
    then show "height_le (Suc 0) page_committed (ft_frame (taskStore page_committed u))"
      using an by blast
  qed
  then obtain sl where sl: "frameLifecycleEvent (Suc 0) ''F'' ''load'' page_committed = Some sl" by blast
  note lc = network_idle_timer_transitions[where s = page_committed and n = "Suc 0"
      and frameId = "''F''" and event = "''load''" and sl = sl and g = 0,
      THEN conjunct2, THEN conjunct2, THEN conjunct2, THEN conjunct2, THEN conjunct2, THEN conjunct2,
      THEN conjunct2, THEN conjunct1, THEN mp, OF sl]
  have lc': "\<exists>sl. frameLifecycleEvent (Suc 0) ''F'' ''load'' page_committed = Some sl
         \<and> networkIdleTimer (frameStore sl 0) = Some (Timer 500 True)"
    using sl lc tm by simp
  have fd: "frameDetached (Suc 0) ''F'' page_committed = Some page_committed_detached" using dv by simp
  note dt = network_idle_timer_transitions[where s = page_committed and n = "Suc 0"
      and frameId = "''F''" and sd = page_committed_detached and g = 0,
      THEN conjunct2, THEN conjunct2, THEN conjunct2, THEN conjunct2, THEN conjunct2, THEN conjunct2,
      THEN conjunct2, THEN conjunct2, THEN mp, OF fd]
  have dt': "inflightRequests (frameStore page_committed_detached 0) = []" using dt ev by simp
  show ?thesis
    using nf i1 t1 fin' ni noop fv fav c1 cm' reg tm ch fire' lc' fd dt' by blast
qed


end
